theory Spec2Isabelle
  imports Complex_Main "HOL-Library.Sublist" "HOL-Library.Multiset"
begin

section \<open>Python values and library operations used by the program\<close>

text \<open>Exceptions are values: every \<^verbatim>\<open>raise\<close> of the source is an \<open>Inl\<close> branch of the model.\<close>

datatype py_exception = ValueError | IndexError | TypeError | AttributeError | ServiceError string

text \<open>
  \<^verbatim>\<open>str(e)\<close>. A failure of an external service carries the service's own message;
  \<^verbatim>\<open>IndexError\<close> and \<^verbatim>\<open>ValueError\<close> carry the interpreter's text for the two places
  that raise them (indexing a list, splitting on an empty separator).
\<close>

fun exc_message :: "py_exception \<Rightarrow> string" where
  "exc_message (ServiceError m) = m"
| "exc_message IndexError = ''list index out of range''"
| "exc_message ValueError = ''empty separator''"
| "exc_message TypeError = ''object is not iterable''"
| "exc_message AttributeError = ''object has no attribute strip''"

text \<open>List indexing \<^verbatim>\<open>xs[i]\<close>: a negative index counts from the end; \<open>None\<close> is \<^verbatim>\<open>IndexError\<close>.\<close>

definition py_index :: "nat \<Rightarrow> int \<Rightarrow> nat option" where
  "py_index n i =
     (if 0 \<le> i \<and> i < int n then Some (nat i)
      else if - int n \<le> i \<and> i < 0 then Some (nat (int n + i))
      else None)"

fun py_find :: "string \<Rightarrow> string \<Rightarrow> nat option" where
  "py_find m [] = (if m = [] then Some 0 else None)"
| "py_find m (c # cs) =
     (if prefix m (c # cs) then Some 0 else map_option Suc (py_find m cs))"

definition py_contains :: "string \<Rightarrow> string \<Rightarrow> bool" where
  "py_contains m s = (py_find m s \<noteq> None)"

definition py_split1_snd :: "string \<Rightarrow> string \<Rightarrow> py_exception + string" where
  "py_split1_snd s m =
     (if m = [] then Inl ValueError
      else case py_find m s of
             None \<Rightarrow> Inl IndexError
           | Some i \<Rightarrow> Inr (drop (i + length m) s))"

section \<open>Token relay: \<^verbatim>\<open>SSECallbackHandler\<close> (agent/chatbot_agent_claw7.py)\<close>

text \<open>
  The handler object is a record; the queue \<open>h_q\<close> holds the items put so far, oldest first.
  \<open>on_llm_new_token\<close> returns the updated handler, or the exception the call raises
  (\<^verbatim>\<open>str.split\<close> rejects an empty separator).
\<close>

record SSECallbackHandler =
  h_q :: "string list"
  h_marker :: string
  h_buffer :: string
  h_started :: bool
  h_marker_len :: nat

definition SSECallbackHandler_init :: "string list \<Rightarrow> string \<Rightarrow> SSECallbackHandler" where
  "SSECallbackHandler_init token_queue start_marker =
     \<lparr>h_q = token_queue, h_marker = start_marker, h_buffer = [], h_started = False,
      h_marker_len = length start_marker\<rparr>"

definition on_llm_new_token :: "SSECallbackHandler \<Rightarrow> string \<Rightarrow> py_exception + SSECallbackHandler" where
  "on_llm_new_token h token =
     (if h_started h then Inr (h\<lparr>h_q := h_q h @ [token]\<rparr>)
      else
        let h1 = h\<lparr>h_buffer := h_buffer h @ token\<rparr> in
        if py_contains (h_marker h1) (h_buffer h1) then
          (case py_split1_snd (h_buffer h1) (h_marker h1) of
             Inl e \<Rightarrow> Inl e
           | Inr after_marker \<Rightarrow>
               Inr ((if after_marker \<noteq> [] then h1\<lparr>h_q := h_q h1 @ [after_marker]\<rparr> else h1)
                      \<lparr>h_started := True\<rparr>))
        else Inr h1)"

fun observe_tokens :: "SSECallbackHandler \<Rightarrow> string list \<Rightarrow> py_exception + SSECallbackHandler" where
  "observe_tokens h [] = Inr h"
| "observe_tokens h (t # ts) =
     (case on_llm_new_token h t of Inl e \<Rightarrow> Inl e | Inr h' \<Rightarrow> observe_tokens h' ts)"


text \<open>Specification vocabulary: the marker \<open>m\<close> occurs in \<open>s\<close> at offset \<open>i\<close>.\<close>

definition occurs_at :: "string \<Rightarrow> string \<Rightarrow> nat \<Rightarrow> bool" where
  "occurs_at m s i = (i + length m \<le> length s \<and> take (length m) (drop i s) = m)"

section \<open>Input parsing of \<^verbatim>\<open>parallel_comprehensive_search\<close> (agent/chatbot_agent_claw7.py)\<close>

text \<open>
  The values \<^verbatim>\<open>json.loads\<close> produces. A number keeps its literal text: the program never
  inspects it. An object is the loaded \<^verbatim>\<open>dict\<close>, its keys distinct, in insertion order.
\<close>

datatype json =
    JNull
  | JBool bool
  | JNumber string
  | JString string
  | JArray "json list"
  | JObject "(string \<times> json) list"

text \<open>
  \<^verbatim>\<open>str.isspace\<close> and \<^verbatim>\<open>str.strip()\<close>. A \<open>char\<close> stands for a code point below 256; among
  these Python counts as whitespace the controls 0x09-0x0D and 0x1C-0x1F, the space, the
  next-line control 0x85 and the no-break space 0xA0.
\<close>

definition py_isspace :: "char \<Rightarrow> bool" where
  "py_isspace c =
     (c \<in> set [CHR 0x09, CHR 0x0A, CHR 0x0B, CHR 0x0C, CHR 0x0D,
               CHR 0x1C, CHR 0x1D, CHR 0x1E, CHR 0x1F, CHR 0x20, CHR 0x85, CHR 0xA0])"

definition py_strip :: "string \<Rightarrow> string" where
  "py_strip s = rev (dropWhile py_isspace (rev (dropWhile py_isspace s)))"

text \<open>A string is blank when it is empty or whitespace only.\<close>

definition blank :: "string \<Rightarrow> bool" where
  "blank s = list_all py_isspace s"

text \<open>
  \<^verbatim>\<open>for q in queries\<close>: a list yields its elements, a string its characters, a dict its keys;
  anything else is not iterable.
\<close>

fun py_iter :: "json \<Rightarrow> py_exception + json list" where
  "py_iter (JArray xs) = Inr xs"
| "py_iter (JString s) = Inr (map (\<lambda>c. JString [c]) s)"
| "py_iter (JObject kvs) = Inr (map (\<lambda>kv. JString (fst kv)) kvs)"
| "py_iter JNull = Inl TypeError"
| "py_iter (JBool b) = Inl TypeError"
| "py_iter (JNumber n) = Inl TypeError"

text \<open>\<^verbatim>\<open>q.strip()\<close>: only a string has the method.\<close>

fun strip_method :: "json \<Rightarrow> py_exception + string" where
  "strip_method (JString s) = Inr (py_strip s)"
| "strip_method JNull = Inl AttributeError"
| "strip_method (JBool b) = Inl AttributeError"
| "strip_method (JNumber n) = Inl AttributeError"
| "strip_method (JArray xs) = Inl AttributeError"
| "strip_method (JObject kvs) = Inl AttributeError"

text \<open>The comprehension \<^verbatim>\<open>[q.strip() for q in queries if q.strip()]\<close>.\<close>

fun clean_queries :: "json list \<Rightarrow> py_exception + string list" where
  "clean_queries [] = Inr []"
| "clean_queries (q # qs) =
     (case strip_method q of
        Inl e \<Rightarrow> Inl e
      | Inr s \<Rightarrow>
          (case clean_queries qs of
             Inl e \<Rightarrow> Inl e
           | Inr r \<Rightarrow> Inr (if s \<noteq> [] then s # r else r)))"

text \<open>
  The \<^verbatim>\<open>try\<close> block that picks the value bound to \<^verbatim>\<open>queries\<close>. The library functions
  \<^verbatim>\<open>json.loads\<close> (\<open>None\<close> when it raises \<^verbatim>\<open>JSONDecodeError\<close>) and \<^verbatim>\<open>str\<close> are parameters.
\<close>

definition extract_queries :: "(string \<Rightarrow> json option) \<Rightarrow> (json \<Rightarrow> string) \<Rightarrow> string \<Rightarrow> json" where
  "extract_queries json_loads py_str query_input =
     (case json_loads query_input of
        None \<Rightarrow> JArray [JString (py_strip query_input)]
      | Some parsed \<Rightarrow>
          (case parsed of
             JArray xs \<Rightarrow> parsed
           | JObject kvs \<Rightarrow>
               (case map_of kvs ''queries_json'' of
                  Some inner_json \<Rightarrow>
                    (case inner_json of
                       JString s \<Rightarrow>
                         (case json_loads s of
                            None \<Rightarrow> JArray [JString (py_strip query_input)]
                          | Some v \<Rightarrow> v)
                     | _ \<Rightarrow> inner_json)
                | None \<Rightarrow> JArray [JString (py_str parsed)])
           | JString s \<Rightarrow>
               (case json_loads s of
                  Some v \<Rightarrow> v
                | None \<Rightarrow> JArray [parsed])
           | _ \<Rightarrow> JArray [JString (py_str parsed)]))"

definition default_query :: string where
  "default_query = ''general dementia care information''"

text \<open>Parsing, validation and cleanup: the sub-query list the tool goes on to execute.\<close>

definition parse_queries ::
  "(string \<Rightarrow> json option) \<Rightarrow> (json \<Rightarrow> string) \<Rightarrow> string \<Rightarrow> py_exception + string list" where
  "parse_queries json_loads py_str query_input =
     (case py_iter (extract_queries json_loads py_str query_input) of
        Inl e \<Rightarrow> Inl e
      | Inr items \<Rightarrow>
          (case clean_queries items of
             Inl e \<Rightarrow> Inl e
           | Inr qs \<Rightarrow> Inr (if qs = [] then [default_query] else qs)))"

text \<open>
  Sample inputs, and what \<^verbatim>\<open>json.loads\<close> makes of them: a whitespace-only text with a
  no-break space, the JSON texts \<^verbatim>\<open>[" ", "\u00a0\u0085", ""]\<close>,
  \<^verbatim>\<open>{"queries_json": [" "]}\<close>, \<^verbatim>\<open>{"queries_json": "[\" \"]"}\<close> and \<^verbatim>\<open>"[\" \"]"\<close>, and a plain
  question. \<open>sample_loads\<close> agrees with \<^verbatim>\<open>json.loads\<close> on these texts (and on the inner text
  \<^verbatim>\<open>[" "]\<close>); it is only ever applied to them.
\<close>

definition dq :: string where
  "dq = [CHR 0x22]"

definition bsl :: string where
  "bsl = [CHR 0x5C]"

definition text_whitespace :: string where
  "text_whitespace = [CHR 0x20, CHR 0xA0, CHR 0x09, CHR 0x0A]"

definition text_blank_list :: string where
  "text_blank_list =
     ''['' @ dq @ '' '' @ dq @ '', '' @ dq @ bsl @ ''u00a0'' @ bsl @ ''u0085'' @ dq @ '', '' @
     dq @ dq @ '']''"

definition text_one_blank :: string where
  "text_one_blank = ''['' @ dq @ '' '' @ dq @ '']''"

definition text_escaped_one_blank :: string where
  "text_escaped_one_blank = ''['' @ bsl @ dq @ '' '' @ bsl @ dq @ '']''"

definition text_object_list :: string where
  "text_object_list = ''{'' @ dq @ ''queries_json'' @ dq @ '': '' @ text_one_blank @ ''}''"

definition text_object_string :: string where
  "text_object_string =
     ''{'' @ dq @ ''queries_json'' @ dq @ '': '' @ dq @ text_escaped_one_blank @ dq @ ''}''"

definition text_double_encoded :: string where
  "text_double_encoded = dq @ text_escaped_one_blank @ dq"

definition sample_loads :: "string \<Rightarrow> json option" where
  "sample_loads s =
     (if s = text_blank_list
        then Some (JArray [JString '' '', JString [CHR 0xA0, CHR 0x85], JString []])
      else if s = text_one_blank then Some (JArray [JString '' ''])
      else if s = text_object_list
        then Some (JObject [(''queries_json'', JArray [JString '' ''])])
      else if s = text_object_string
        then Some (JObject [(''queries_json'', JString text_one_blank)])
      else if s = text_double_encoded then Some (JString text_one_blank)
      else None)"

section \<open>Dual-track search: \<^verbatim>\<open>execute_dual_track_search\<close> (agent/chatbot_agent_claw7.py)\<close>

type_synonym score = rat

text \<open>
  A retrieved row and everything the program later attaches to it live in one Python dict.
  \<open>row_id\<close> and \<open>content\<close> are the columns the store always returns; an optional field is
  \<open>None\<close> while the key is absent. \<^verbatim>\<open>list(set(...))\<close> has no specified order, so the two
  provenance fields are kept as the sets themselves.
\<close>

record chunk =
  row_id :: int
  content :: string
  source_url :: "string option"
  page_title :: "string option"
  topic_heading :: "string option"
  similarity :: "score option"
  cohere_score :: "score option"
  rerank_position :: "nat option"
  retrieved_by_queries :: "string set option"
  retrieved_by_query_ids :: "string option set option"
  retrieval_count :: "nat option"
  unique_query_count :: "nat option"
  best_similarity :: "score option"
  best_cohere_score :: "score option"
  final_cohere_score :: "score option"
  final_rank :: "nat option"

text \<open>A row as the store returns it: id, content and similarity, nothing attached yet.\<close>

definition db_row :: "int \<Rightarrow> string \<Rightarrow> score \<Rightarrow> chunk" where
  "db_row i c s =
     \<lparr>row_id = i, content = c, source_url = None, page_title = None, topic_heading = None,
      similarity = Some s, cohere_score = None, rerank_position = None,
      retrieved_by_queries = None, retrieved_by_query_ids = None, retrieval_count = None,
      unique_query_count = None, best_similarity = None, best_cohere_score = None,
      final_cohere_score = None, final_rank = None\<rparr>"

record search_params =
  query_embedding :: "rat list"
  keyword :: string
  match_count :: nat
  similarity_threshold :: rat
  title_match_count :: "nat option"

record rerank_result =
  rr_index :: int
  relevance_score :: score

text \<open>
  The three external clients. Each call returns its payload or the exception it raises:
  \<open>vo_embed\<close> the \<^verbatim>\<open>embeddings\<close> list, \<open>supabase_rpc\<close> the response's \<^verbatim>\<open>data\<close> (possibly
  \<^verbatim>\<open>None\<close>), \<open>co_rerank\<close> the response's \<^verbatim>\<open>results\<close> for a query, documents and \<^verbatim>\<open>top_n\<close>.
\<close>

record services =
  vo_embed :: "string list \<Rightarrow> py_exception + rat list list"
  supabase_rpc :: "string \<Rightarrow> search_params \<Rightarrow> py_exception + chunk list option"
  co_rerank :: "string \<Rightarrow> string list \<Rightarrow> nat \<Rightarrow> py_exception + rerank_result list"

record search_result =
  query :: string
  search_id :: "string option"
  results :: "chunk list"
  search_time :: rat
  total_before_rerank :: "nat option"
  total_after_rerank :: "nat option"
  error :: "string option"

definition make_search_params :: "rat list \<Rightarrow> string \<Rightarrow> search_params" where
  "make_search_params emb qry =
     \<lparr>query_embedding = emb, keyword = qry, match_count = 30, similarity_threshold = 2 / 5,
      title_match_count = None\<rparr>"

definition make_title_params :: "rat list \<Rightarrow> string \<Rightarrow> search_params" where
  "make_title_params emb qry = (make_search_params emb qry)\<lparr>title_match_count := Some 10\<rparr>"

text \<open>\<^verbatim>\<open>.data or []\<close>\<close>

definition data_or_empty :: "chunk list option \<Rightarrow> chunk list" where
  "data_or_empty d = (case d of None \<Rightarrow> [] | Some rows \<Rightarrow> rows)"

text \<open>The merge loop over \<^verbatim>\<open>simple_results + title_results\<close> with its \<^verbatim>\<open>seen_ids\<close> set.\<close>

fun combine_tracks :: "chunk list \<Rightarrow> int set \<Rightarrow> chunk list" where
  "combine_tracks [] seen_ids = []"
| "combine_tracks (result # rest) seen_ids =
     (if row_id result \<notin> seen_ids
      then result # combine_tracks rest (insert (row_id result) seen_ids)
      else combine_tracks rest seen_ids)"

text \<open>
  Mapping the rerank response back. The loop writes the score and position into the dict
  \<^verbatim>\<open>combined_results[rerank_result.index]\<close> itself, so \<^verbatim>\<open>reranked_results\<close> is a list of
  references: the model keeps the picked positions and the updated list. An index out of
  range stops the loop (\<open>None\<close>) with the updates made so far in place.
\<close>

fun map_reranked ::
  "rerank_result list \<Rightarrow> nat \<Rightarrow> chunk list \<Rightarrow> nat list \<Rightarrow> chunk list \<times> nat list option" where
  "map_reranked [] idx combined picked = (combined, Some picked)"
| "map_reranked (rr # rest) idx combined picked =
     (case py_index (length combined) (rr_index rr) of
        None \<Rightarrow> (combined, None)
      | Some j \<Rightarrow>
          map_reranked rest (idx + 1)
            (combined[j := (combined ! j)\<lparr>cohere_score := Some (relevance_score rr),
                                          rerank_position := Some (idx + 1)\<rparr>])
            (picked @ [j]))"

definition similarity_or_0 :: "chunk \<Rightarrow> score" where
  "similarity_or_0 x = (case similarity x of None \<Rightarrow> 0 | Some s \<Rightarrow> s)"

definition cohere_score_or_0 :: "chunk \<Rightarrow> score" where
  "cohere_score_or_0 x = (case cohere_score x of None \<Rightarrow> 0 | Some s \<Rightarrow> s)"

text \<open>
  \<^verbatim>\<open>sorted(combined_results, key=..., reverse=True)[:8]\<close>: Python's sort is stable also when
  reversed, as is \<open>sort_key\<close> on the negated key.
\<close>

definition similarity_fallback :: "chunk list \<Rightarrow> chunk list" where
  "similarity_fallback combined = take 8 (sort_key (\<lambda>x. - similarity_or_0 x) combined)"

text \<open>The inner \<^verbatim>\<open>try\<close>: rerank, or fall back on any exception raised inside it.\<close>

definition rank_results :: "services \<Rightarrow> string \<Rightarrow> chunk list \<Rightarrow> chunk list" where
  "rank_results sv qry combined_results =
     (let documents = map content combined_results in
      case co_rerank sv qry documents (min 10 (length documents)) of
        Inl cohere_error \<Rightarrow> similarity_fallback combined_results
      | Inr response \<Rightarrow>
          (case map_reranked response 0 combined_results [] of
             (updated, Some picked) \<Rightarrow> map (\<lambda>j. updated ! j) picked
           | (updated, None) \<Rightarrow> similarity_fallback updated))"

text \<open>
  The body of the outer \<^verbatim>\<open>try\<close>. \<open>t0\<close> and \<open>t1\<close> are the clock readings at entry and at
  return. Both track calls are submitted before either result is read, and the simple
  track's result is read first.
\<close>

definition dual_track_body ::
  "services \<Rightarrow> rat \<Rightarrow> rat \<Rightarrow> string \<Rightarrow> string option \<Rightarrow> py_exception + search_result" where
  "dual_track_body sv t0 t1 qry sid =
     (case vo_embed sv [qry] of
        Inl e \<Rightarrow> Inl e
      | Inr embeddings \<Rightarrow>
          (case embeddings of
             [] \<Rightarrow> Inl IndexError
           | emb # _ \<Rightarrow>
               (case supabase_rpc sv ''simple_hybrid_search'' (make_search_params emb qry) of
                  Inl e \<Rightarrow> Inl e
                | Inr simple_data \<Rightarrow>
                    (case supabase_rpc sv ''title_filtered_search'' (make_title_params emb qry) of
                       Inl e \<Rightarrow> Inl e
                     | Inr title_data \<Rightarrow>
                         (let combined_results =
                                combine_tracks (data_or_empty simple_data @ data_or_empty title_data) {};
                              final_results =
                                (if combined_results \<noteq> [] then rank_results sv qry combined_results
                                 else [])
                          in Inr \<lparr>query = qry, search_id = sid, results = final_results,
                                  search_time = t1 - t0,
                                  total_before_rerank = Some (length combined_results),
                                  total_after_rerank = Some (length final_results),
                                  error = None\<rparr>)))))"

definition search_failed :: "rat \<Rightarrow> rat \<Rightarrow> string \<Rightarrow> string option \<Rightarrow> py_exception \<Rightarrow> search_result" where
  "search_failed t0 t1 qry sid e =
     \<lparr>query = qry, search_id = sid, results = [], search_time = t1 - t0,
      total_before_rerank = None, total_after_rerank = None,
      error = Some (''Search failed for '' @ [CHR 0x27] @ qry @ [CHR 0x27] @ '': '' @ exc_message e)\<rparr>"

text \<open>The function: the body under \<^verbatim>\<open>except Exception\<close>.\<close>

definition execute_dual_track_search ::
  "services \<Rightarrow> rat \<Rightarrow> rat \<Rightarrow> string \<Rightarrow> string option \<Rightarrow> py_exception + search_result" where
  "execute_dual_track_search sv t0 t1 qry sid =
     (case dual_track_body sv t0 t1 qry sid of
        Inr r \<Rightarrow> Inr r
      | Inl e \<Rightarrow> Inr (search_failed t0 t1 qry sid e))"

text \<open>Concrete services for evaluating the executor.\<close>

definition five_rows :: "chunk list" where
  "five_rows =
     [db_row 1 ''a'' (1 / 2), db_row 2 ''b'' (9 / 10), db_row 3 ''c'' (7 / 10),
      db_row 4 ''d'' (9 / 10), db_row 5 ''e'' (3 / 5)]"

definition rerank_down :: services where
  "rerank_down =
     \<lparr>vo_embed = (\<lambda>texts. Inr [[1]]),
      supabase_rpc = (\<lambda>name params.
         if name = ''simple_hybrid_search'' then Inr (Some (take 3 five_rows))
         else Inr (Some (drop 2 five_rows))),
      co_rerank = (\<lambda>qry documents top_n. Inl (ServiceError ''rerank unavailable''))\<rparr>"

definition simple_track_down :: services where
  "simple_track_down =
     \<lparr>vo_embed = (\<lambda>texts. Inr [[1]]),
      supabase_rpc = (\<lambda>name params.
         if name = ''simple_hybrid_search'' then Inl (ServiceError ''timeout'')
         else Inr (Some [db_row 7 ''g'' (4 / 5)])),
      co_rerank = (\<lambda>qry documents top_n. Inr [\<lparr>rr_index = 0, relevance_score = 9 / 10\<rparr>])\<rparr>"

definition title_track_down :: services where
  "title_track_down =
     \<lparr>vo_embed = (\<lambda>texts. Inr [[1]]),
      supabase_rpc = (\<lambda>name params.
         if name = ''simple_hybrid_search'' then Inr (Some [db_row 7 ''g'' (4 / 5)])
         else Inl (ServiceError ''timeout'')),
      co_rerank = (\<lambda>qry documents top_n. Inr [\<lparr>rr_index = 0, relevance_score = 9 / 10\<rparr>])\<rparr>"

definition embedding_down :: services where
  "embedding_down =
     \<lparr>vo_embed = (\<lambda>texts. Inl (ServiceError ''no embedding'')),
      supabase_rpc = (\<lambda>name params. Inr (Some [db_row 7 ''g'' (4 / 5)])),
      co_rerank = (\<lambda>qry documents top_n. Inr [\<lparr>rr_index = 0, relevance_score = 9 / 10\<rparr>])\<rparr>"

section \<open>Fan-out over the sub-queries (\<^verbatim>\<open>parallel_comprehensive_search\<close>, lines 240-258)\<close>

text \<open>\<^verbatim>\<open>str(n)\<close> for a non-negative integer, and the search id \<^verbatim>\<open>f"Q{i+1}"\<close>.\<close>

definition digit_char :: "nat \<Rightarrow> char" where
  "digit_char d = char_of (48 + d)"

fun str_nat :: "nat \<Rightarrow> string" where
  "str_nat n = (if n < 10 then [digit_char n] else str_nat (n div 10) @ [digit_char (n mod 10)])"

declare str_nat.simps [simp del]

text \<open>Reading a decimal numeral back, \<^verbatim>\<open>int(s)\<close>: used to show that \<open>str_nat\<close> is injective.\<close>

definition nat_of_str :: "string \<Rightarrow> nat" where
  "nat_of_str s = fold (\<lambda>c acc. 10 * acc + (of_char c - 48)) s 0"

definition search_id_of :: "nat \<Rightarrow> string" where
  "search_id_of i = ''Q'' @ str_nat (i + 1)"

text \<open>The dict comprehension \<^verbatim>\<open>{f"Q{i+1}": i for i in range(len(queries))}\<close>.\<close>

definition search_id_to_order :: "nat \<Rightarrow> (string \<rightharpoonup> nat)" where
  "search_id_to_order n = fold (\<lambda>i m. m(search_id_of i \<mapsto> i)) [0..<n] Map.empty"

text \<open>
  The sort key \<^verbatim>\<open>search_id_to_order.get(x.get('search_id', 'Q999'), 999)\<close>. Every result
  dict has the key \<^verbatim>\<open>search_id\<close>; its value may be \<^verbatim>\<open>None\<close>, which is not a key of the dict.
\<close>

definition order_key :: "(string \<rightharpoonup> nat) \<Rightarrow> search_result \<Rightarrow> nat" where
  "order_key m x =
     (case search_id x of
        None \<Rightarrow> 999
      | Some s \<Rightarrow> (case m s of None \<Rightarrow> 999 | Some i \<Rightarrow> i))"

text \<open>\<^verbatim>\<open>future.result()\<close> on each completed future: the first exception would propagate.\<close>

fun collect_completed :: "(py_exception + search_result) list \<Rightarrow> py_exception + search_result list" where
  "collect_completed [] = Inr []"
| "collect_completed (f # fs) =
     (case f of
        Inl e \<Rightarrow> Inl e
      | Inr result \<Rightarrow>
          (case collect_completed fs of
             Inl e \<Rightarrow> Inl e
           | Inr rest \<Rightarrow> Inr (result # rest)))"

text \<open>
  One task per sub-query, submitted in order with ids Q1, Q2, ...; \<open>completion\<close> is the
  order in which \<^verbatim>\<open>as_completed\<close> yields the futures (a permutation of the submitted
  indices, chosen by the scheduler), \<open>clock i\<close> the entry and return times of task \<open>i\<close>.
  A pool of zero workers is rejected by \<^verbatim>\<open>ThreadPoolExecutor\<close>. The collected list is then
  sorted in place (stable) by \<open>order_key\<close>.
\<close>

definition submitted_search ::
  "services \<Rightarrow> (nat \<Rightarrow> rat \<times> rat) \<Rightarrow> string list \<Rightarrow> nat \<Rightarrow> py_exception + search_result" where
  "submitted_search sv clock queries i =
     execute_dual_track_search sv (fst (clock i)) (snd (clock i)) (queries ! i) (Some (search_id_of i))"

definition fan_out ::
  "services \<Rightarrow> (nat \<Rightarrow> rat \<times> rat) \<Rightarrow> string list \<Rightarrow> nat list \<Rightarrow> py_exception + search_result list" where
  "fan_out sv clock queries completion =
     (if min (length queries) 4 = 0 then Inl ValueError
      else
        case collect_completed (map (submitted_search sv clock queries) completion) of
          Inl e \<Rightarrow> Inl e
        | Inr all_search_results \<Rightarrow>
            Inr (sort_key (order_key (search_id_to_order (length queries))) all_search_results))"

section \<open>Cross-query deduplication (\<^verbatim>\<open>parallel_comprehensive_search\<close>, lines 260-315)\<close>

text \<open>One entry of \<^verbatim>\<open>chunk_groups\<close>; \<open>new_group\<close> is what the \<^verbatim>\<open>defaultdict\<close> factory returns.\<close>

record chunk_group =
  chunk_data :: "chunk option"
  source_queries :: "string list"
  source_query_ids :: "string option list"
  best_scores_similarity :: score
  best_scores_cohere_score :: score

definition new_group :: chunk_group where
  "new_group =
     \<lparr>chunk_data = None, source_queries = [], source_query_ids = [],
      best_scores_similarity = 0, best_scores_cohere_score = 0\<rparr>"

text \<open>The dict keeps its keys in insertion order: an association list, a key stored once.\<close>

type_synonym chunk_groups = "(int \<times> chunk_group) list"

definition group_lookup :: "int \<Rightarrow> chunk_groups \<Rightarrow> chunk_group" where
  "group_lookup k groups = (case map_of groups k of None \<Rightarrow> new_group | Some g \<Rightarrow> g)"

fun group_store :: "int \<Rightarrow> chunk_group \<Rightarrow> chunk_groups \<Rightarrow> chunk_groups" where
  "group_store k g [] = [(k, g)]"
| "group_store k g (kg # rest) =
     (if fst kg = k then (k, g) # rest else kg # group_store k g rest)"

text \<open>What one result of one search does to its group (the body of the inner loop).\<close>

definition update_group :: "search_result \<Rightarrow> chunk \<Rightarrow> chunk_group \<Rightarrow> chunk_group" where
  "update_group search_result result g0 =
     (let g1 = (if chunk_data g0 = None then g0\<lparr>chunk_data := Some result\<rparr> else g0);
          g2 = g1\<lparr>source_queries := source_queries g1 @ [query search_result],
                  source_query_ids := source_query_ids g1 @ [search_id search_result]\<rparr>;
          g3 = (if similarity_or_0 result > best_scores_similarity g2
                then g2\<lparr>best_scores_similarity := similarity_or_0 result\<rparr> else g2)
      in (if cohere_score_or_0 result > best_scores_cohere_score g3
          then g3\<lparr>best_scores_cohere_score := cohere_score_or_0 result\<rparr> else g3))"

definition add_result :: "search_result \<Rightarrow> chunk \<Rightarrow> chunk_groups \<Rightarrow> chunk_groups" where
  "add_result search_result result groups =
     group_store (row_id result)
       (update_group search_result result (group_lookup (row_id result) groups)) groups"

definition group_chunks :: "search_result list \<Rightarrow> chunk_groups" where
  "group_chunks all_search_results =
     fold (\<lambda>search_result groups. fold (add_result search_result) (results search_result) groups)
       all_search_results []"

text \<open>
  Converting the groups back to a list. A stored chunk is a non-empty dict, so the test
  \<^verbatim>\<open>if chunk\<close> only skips a group without data.
\<close>

definition finish_group :: "chunk_group \<Rightarrow> chunk option" where
  "finish_group g =
     (case chunk_data g of
        None \<Rightarrow> None
      | Some chunk \<Rightarrow>
          Some (chunk\<lparr>retrieved_by_queries := Some (set (source_queries g)),
                      retrieved_by_query_ids := Some (set (source_query_ids g)),
                      retrieval_count := Some (length (source_queries g)),
                      unique_query_count := Some (card (set (source_queries g))),
                      best_similarity := Some (best_scores_similarity g),
                      best_cohere_score := Some (best_scores_cohere_score g)\<rparr>))"

definition deduplicate :: "search_result list \<Rightarrow> chunk list" where
  "deduplicate all_search_results =
     List.map_filter (\<lambda>kg. finish_group (snd kg)) (group_chunks all_search_results)"

text \<open>
  Specification vocabulary: every (search, record) pair of the input in processing order,
  and the appearances of one record id among them.
\<close>

definition all_pairs :: "search_result list \<Rightarrow> (search_result \<times> chunk) list" where
  "all_pairs srs = concat (map (\<lambda>sr. map (Pair sr) (results sr)) srs)"

definition appearances :: "search_result list \<Rightarrow> int \<Rightarrow> (search_result \<times> chunk) list" where
  "appearances srs cid = filter (\<lambda>p. row_id (snd p) = cid) (all_pairs srs)"

text \<open>Scenario A of the specification.\<close>

definition scenario_A :: "search_result list" where
  "scenario_A =
     [\<lparr>query = ''Q1'', search_id = Some ''Q1'', results = [db_row 5 ''text'' (7 / 10)],
       search_time = 1, total_before_rerank = Some 1, total_after_rerank = Some 1, error = None\<rparr>,
      \<lparr>query = ''Q2'', search_id = Some ''Q2'',
       results = [(db_row 5 ''text'' (6 / 10))\<lparr>cohere_score := Some (8 / 10)\<rparr>],
       search_time = 1, total_before_rerank = Some 1, total_after_rerank = Some 1, error = None\<rparr>]"

text \<open>A run with a repeated sub-query text: record 5 is found three times by two texts.\<close>

definition scenario_repeat :: "search_result list" where
  "scenario_repeat =
     [\<lparr>query = ''wandering'', search_id = Some ''Q1'',
       results = [db_row 5 ''text'' (7 / 10), db_row 6 ''other'' (1 / 2)],
       search_time = 1, total_before_rerank = Some 2, total_after_rerank = Some 2, error = None\<rparr>,
      \<lparr>query = ''sleep'', search_id = Some ''Q2'',
       results = [(db_row 5 ''text'' (6 / 10))\<lparr>cohere_score := Some (8 / 10)\<rparr>],
       search_time = 1, total_before_rerank = Some 1, total_after_rerank = Some 1, error = None\<rparr>,
      \<lparr>query = ''wandering'', search_id = Some ''Q3'',
       results = [(db_row 5 ''text'' (9 / 10))\<lparr>cohere_score := Some (3 / 10)\<rparr>],
       search_time = 1, total_before_rerank = Some 1, total_after_rerank = Some 1, error = None\<rparr>]"

text \<open>
  The loop invariant of the grouping: after the pairs \<open>pairs\<close> have been processed, the group
  stored under \<open>k\<close> lists the query of every appearance of \<open>k\<close>, in order, holds a record
  with that id, and its best scores bound the scores of every appearance.
\<close>

definition group_ok :: "(search_result \<times> chunk) list \<Rightarrow> int \<Rightarrow> chunk_group \<Rightarrow> bool" where
  "group_ok pairs k g \<longleftrightarrow>
     source_queries g = map (\<lambda>p. query (fst p)) (filter (\<lambda>p. row_id (snd p) = k) pairs) \<and>
     (\<exists>c. chunk_data g = Some c \<and> row_id c = k) \<and>
     (\<forall>p\<in>set pairs. row_id (snd p) = k \<longrightarrow>
        similarity_or_0 (snd p) \<le> best_scores_similarity g \<and>
        cohere_score_or_0 (snd p) \<le> best_scores_cohere_score g)"

definition groups_ok :: "(search_result \<times> chunk) list \<Rightarrow> chunk_groups \<Rightarrow> bool" where
  "groups_ok pairs groups \<longleftrightarrow>
     distinct (map fst groups) \<and>
     (\<forall>k g. map_of groups k = Some g \<longrightarrow> group_ok pairs k g) \<and>
     (\<forall>p\<in>set pairs. map_of groups (row_id (snd p)) \<noteq> None)"

section \<open>Final fusion rerank (\<^verbatim>\<open>parallel_comprehensive_search\<close>, lines 321-350)\<close>

text \<open>\<^verbatim>\<open>" ".join(queries)\<close>\<close>

fun join_space :: "string list \<Rightarrow> string" where
  "join_space [] = []"
| "join_space [q] = q"
| "join_space (q # q' # qs) = q @ '' '' @ join_space (q' # qs)"

text \<open>
  The loop over \<^verbatim>\<open>final_rerank.results\<close>. As in the executor, the loop writes into the dicts
  of \<^verbatim>\<open>deduplicated_chunks\<close> and \<^verbatim>\<open>final_chunks\<close> refers to them; an index out of range
  stops the loop with the writes made so far in place.
\<close>

fun apply_final_ranking ::
  "rerank_result list \<Rightarrow> nat \<Rightarrow> chunk list \<Rightarrow> nat list \<Rightarrow> chunk list \<times> nat list option" where
  "apply_final_ranking [] idx chunks picked = (chunks, Some picked)"
| "apply_final_ranking (rr # rest) idx chunks picked =
     (case py_index (length chunks) (rr_index rr) of
        None \<Rightarrow> (chunks, None)
      | Some j \<Rightarrow>
          apply_final_ranking rest (idx + 1)
            (chunks[j := (chunks ! j)\<lparr>final_cohere_score := Some (relevance_score rr),
                                      final_rank := Some (idx + 1)\<rparr>])
            (picked @ [j]))"

definition final_fusion :: "services \<Rightarrow> string list \<Rightarrow> chunk list \<Rightarrow> chunk list" where
  "final_fusion sv queries deduplicated_chunks =
     (if length queries > 1 \<and> deduplicated_chunks \<noteq> [] then
        (let main_query = join_space queries;
             documents = map content deduplicated_chunks
         in case co_rerank sv main_query documents (min 10 (length documents)) of
              Inl e \<Rightarrow> take 12 deduplicated_chunks
            | Inr response \<Rightarrow>
                (case apply_final_ranking response 0 deduplicated_chunks [] of
                   (updated, Some picked) \<Rightarrow> map (\<lambda>j. updated ! j) picked
                 | (updated, None) \<Rightarrow> take 12 updated))
      else take 8 deduplicated_chunks)"

text \<open>What the loop leaves in the \<open>k\<close>-th final chunk when the response's indices are in range and distinct.\<close>

definition ranked_chunk :: "chunk list \<Rightarrow> rerank_result list \<Rightarrow> nat \<Rightarrow> chunk" where
  "ranked_chunk chunks response k =
     (chunks ! nat (rr_index (response ! k)))
       \<lparr>final_cohere_score := Some (relevance_score (response ! k)), final_rank := Some (k + 1)\<rparr>"

text \<open>Concrete data for evaluating the fusion step.\<close>

definition three_chunks :: "chunk list" where
  "three_chunks = [db_row 1 ''a'' (1 / 2), db_row 2 ''b'' (9 / 10), db_row 3 ''c'' (7 / 10)]"

definition fusion_up :: services where
  "fusion_up =
     \<lparr>vo_embed = (\<lambda>texts. Inr [[1]]),
      supabase_rpc = (\<lambda>name params. Inr None),
      co_rerank = (\<lambda>qry documents top_n.
         if qry = ''x y'' then
           Inr [\<lparr>rr_index = 2, relevance_score = 9 / 10\<rparr>, \<lparr>rr_index = 0, relevance_score = 1 / 5\<rparr>]
         else Inl (ServiceError ''rerank unavailable''))\<rparr>"

section \<open>Formatting and the tool's return value (\<^verbatim>\<open>parallel_comprehensive_search\<close>, lines 352-415)\<close>

record formatted_chunk =
  fc_chunk_id :: int
  fc_source_url :: "string option"
  fc_page_title :: "string option"
  fc_topic_heading :: "string option"
  fc_content :: string
  fc_similarity_score :: score
  fc_cohere_score :: score
  fc_best_similarity :: score
  fc_best_cohere_score :: score
  fc_final_cohere_score :: score
  fc_final_rank :: "nat option"
  fc_retrieved_by_queries :: "string set"
  fc_retrieved_by_query_ids :: "string option set"
  fc_retrieval_count :: nat
  fc_unique_query_count :: nat
  fc_is_duplicate_found :: bool

definition get_or :: "'a option \<Rightarrow> 'a \<Rightarrow> 'a" where
  "get_or v d = (case v of None \<Rightarrow> d | Some x \<Rightarrow> x)"

text \<open>One formatted result; \<open>round3\<close> is \<^verbatim>\<open>round(x, 3)\<close> on floats, a parameter.\<close>

definition format_chunk :: "(score \<Rightarrow> score) \<Rightarrow> chunk \<Rightarrow> formatted_chunk" where
  "format_chunk round3 chunk =
     \<lparr>fc_chunk_id = row_id chunk,
      fc_source_url = source_url chunk,
      fc_page_title = page_title chunk,
      fc_topic_heading = topic_heading chunk,
      fc_content = (if length (content chunk) > 800 then take 800 (content chunk) @ ''...''
                    else content chunk),
      fc_similarity_score = round3 (get_or (similarity chunk) 0),
      fc_cohere_score = round3 (get_or (cohere_score chunk) 0),
      fc_best_similarity = round3 (get_or (best_similarity chunk) 0),
      fc_best_cohere_score = round3 (get_or (best_cohere_score chunk) 0),
      fc_final_cohere_score = round3 (get_or (final_cohere_score chunk) 0),
      fc_final_rank = final_rank chunk,
      fc_retrieved_by_queries = get_or (retrieved_by_queries chunk) {},
      fc_retrieved_by_query_ids = get_or (retrieved_by_query_ids chunk) {},
      fc_retrieval_count = get_or (retrieval_count chunk) 1,
      fc_unique_query_count = get_or (unique_query_count chunk) 1,
      fc_is_duplicate_found = (get_or (retrieval_count chunk) 1 > 1)\<rparr>"

record deduplication_stats =
  total_chunks_before :: nat
  unique_chunks_after :: nat
  duplicates_removed :: int
  chunks_found_multiple_times :: nat

record query_detail =
  qd_query :: string
  qd_search_id :: "string option"
  qd_results_count :: nat
  qd_search_time :: rat
  qd_error :: "string option"

record search_summary =
  total_queries :: nat
  parsed_queries :: "string list"
  dedup_stats :: deduplication_stats
  query_details :: "query_detail list"
  summary_results :: "formatted_chunk list"
  total_results :: nat
  overall_time :: rat

definition build_summary ::
  "string list \<Rightarrow> search_result list \<Rightarrow> chunk list \<Rightarrow> chunk list \<Rightarrow> formatted_chunk list \<Rightarrow> rat
     \<Rightarrow> search_summary" where
  "build_summary queries all_search_results deduplicated_chunks final_chunks formatted_results elapsed =
     \<lparr>total_queries = length queries,
      parsed_queries = queries,
      dedup_stats =
        \<lparr>total_chunks_before = sum_list (map (\<lambda>sr. length (results sr)) all_search_results),
         unique_chunks_after = length deduplicated_chunks,
         duplicates_removed =
           int (sum_list (map (\<lambda>sr. length (results sr)) all_search_results))
             - int (length deduplicated_chunks),
         chunks_found_multiple_times =
           length (filter (\<lambda>chunk. get_or (retrieval_count chunk) 1 > 1) final_chunks)\<rparr>,
      query_details =
        map (\<lambda>sr. \<lparr>qd_query = query sr, qd_search_id = search_id sr,
                    qd_results_count = length (results sr), qd_search_time = search_time sr,
                    qd_error = error sr\<rparr>) all_search_results,
      summary_results = formatted_results,
      total_results = length formatted_results,
      overall_time = elapsed\<rparr>"

text \<open>
  The value handed to \<^verbatim>\<open>json.dumps\<close>: the not-found dict with its four keys, or the summary
  itself (which has no \<^verbatim>\<open>status\<close> key).
\<close>

datatype report =
    Not_found (report_status: string) (report_message: string) (report_queries: "string list")
      (report_summary: search_summary)
  | Found search_summary

text \<open>
  Everything outside the program that a run of the tool depends on: the three clients, the
  library functions \<^verbatim>\<open>json.loads\<close>, \<^verbatim>\<open>str\<close> and \<^verbatim>\<open>round\<close>, the clock, and the order in
  which the pool completes \<open>n\<close> submitted searches.
\<close>

record environment =
  clients :: services
  lib_json_loads :: "string \<Rightarrow> json option"
  lib_py_str :: "json \<Rightarrow> string"
  lib_round3 :: "score \<Rightarrow> score"
  lib_round2 :: "rat \<Rightarrow> rat"
  search_clock :: "nat \<Rightarrow> rat \<times> rat"
  overall_clock :: "rat \<times> rat"
  completion_order :: "nat \<Rightarrow> nat list"

definition parallel_comprehensive_search :: "environment \<Rightarrow> string \<Rightarrow> py_exception + report" where
  "parallel_comprehensive_search env query_input =
     (case parse_queries (lib_json_loads env) (lib_py_str env) query_input of
        Inl e \<Rightarrow> Inl e
      | Inr queries \<Rightarrow>
          (case fan_out (clients env) (search_clock env) queries
                  (completion_order env (length queries)) of
             Inl e \<Rightarrow> Inl e
           | Inr all_search_results \<Rightarrow>
               (let deduplicated_chunks = deduplicate all_search_results;
                    final_chunks = final_fusion (clients env) queries deduplicated_chunks;
                    formatted_results = map (format_chunk (lib_round3 env)) final_chunks;
                    search_summary =
                      build_summary queries all_search_results deduplicated_chunks final_chunks
                        formatted_results
                        (lib_round2 env (snd (overall_clock env) - fst (overall_clock env)))
                in Inr (if formatted_results = []
                        then Not_found ''not_found''
                               ''No relevant information found for any of the queries.''
                               queries search_summary
                        else Found search_summary))))"

text \<open>Concrete environments: a store that finds nothing, and one that finds a row.\<close>

definition empty_store :: services where
  "empty_store =
     \<lparr>vo_embed = (\<lambda>texts. Inr [[1]]),
      supabase_rpc = (\<lambda>name params. if name = ''simple_hybrid_search'' then Inr (Some []) else Inr None),
      co_rerank = (\<lambda>qry documents top_n. Inr [])\<rparr>"

definition quiet_env :: "services \<Rightarrow> environment" where
  "quiet_env sv =
     \<lparr>clients = sv, lib_json_loads = (\<lambda>s. None), lib_py_str = (\<lambda>v. []), lib_round3 = (\<lambda>x. x), lib_round2 = (\<lambda>x. x),
      search_clock = (\<lambda>i. (0, 1)), overall_clock = (0, 2), completion_order = (\<lambda>n. rev [0..<n])\<rparr>"

section \<open>The streaming endpoint: \<^verbatim>\<open>ask_stream\<close> (Backend/server.py)\<close>

text \<open>The two shapes \<^verbatim>\<open>sse_pack\<close> is given: a status event and an answer chunk.\<close>

datatype stream_event = Status string | Answer string

text \<open>
  The worker thread, as the consumer can observe it: a sequence of queue puts. It puts the
  statuses \<open>thinking\<close> and \<open>searching\<close>, then runs the agent, whose callback puts the tokens
  \<open>toks\<close> into the token queue; when the agent call returns it puts the sentinel \<^verbatim>\<open>None\<close> and
  the status \<open>finished\<close>. When the agent call raises, the thread ends without these two puts.
\<close>

datatype worker_action = Put_status string | Put_token "string option"

definition worker_program :: "string list \<Rightarrow> bool \<Rightarrow> worker_action list" where
  "worker_program toks agent_returns =
     [Put_status ''thinking'', Put_status ''searching''] @ map (\<lambda>t. Put_token (Some t)) toks @
     (if agent_returns then [Put_token None, Put_status ''finished''] else [])"

text \<open>
  The generator \<^verbatim>\<open>stream()\<close> as a state machine: before its first \<^verbatim>\<open>yield\<close>, at
  \<^verbatim>\<open>token_queue.get\<close>, in the loop that drains the status queue, after the \<^verbatim>\<open>break\<close>, and
  exhausted.
\<close>

datatype consumer_pc = At_start | Polling | Draining | Finishing | Closed

record stream_state =
  worker_todo :: "worker_action list"
  status_queue :: "string list"
  token_queue :: "string option list"
  pc :: consumer_pc
  answer_started :: bool
  emitted :: "stream_event list"

definition stream_start :: "string list \<Rightarrow> bool \<Rightarrow> stream_state" where
  "stream_start toks agent_returns =
     \<lparr>worker_todo = worker_program toks agent_returns, status_queue = [], token_queue = [],
      pc = At_start, answer_started = False, emitted = []\<rparr>"

definition worker_step :: "stream_state \<Rightarrow> stream_state" where
  "worker_step s =
     (case worker_todo s of
        [] \<Rightarrow> s
      | Put_status x # rest \<Rightarrow> s\<lparr>worker_todo := rest, status_queue := status_queue s @ [x]\<rparr>
      | Put_token t # rest \<Rightarrow> s\<lparr>worker_todo := rest, token_queue := token_queue s @ [t]\<rparr>)"

text \<open>
  One step of the generator. \<^verbatim>\<open>token_queue.get(timeout=0.05)\<close> returns the head of the queue
  when there is one and raises \<^verbatim>\<open>Empty\<close> otherwise; whatever the worker puts while the call
  waits is a worker step scheduled before it.
\<close>

definition consumer_step :: "stream_state \<Rightarrow> stream_state" where
  "consumer_step s =
     (case pc s of
        At_start \<Rightarrow> s\<lparr>emitted := emitted s @ [Status ''thinking''], pc := Polling\<rparr>
      | Polling \<Rightarrow>
          (case token_queue s of
             [] \<Rightarrow> s\<lparr>pc := Draining\<rparr>
           | None # rest \<Rightarrow> s\<lparr>token_queue := rest, pc := Finishing\<rparr>
           | Some token # rest \<Rightarrow>
               s\<lparr>token_queue := rest,
                 emitted := emitted s @
                   (if answer_started s then [] else [Status ''answering'']) @ [Answer token],
                 answer_started := True, pc := Draining\<rparr>)
      | Draining \<Rightarrow>
          (case status_queue s of
             [] \<Rightarrow> s\<lparr>pc := Polling\<rparr>
           | stat # rest \<Rightarrow> s\<lparr>status_queue := rest, emitted := emitted s @ [Status stat]\<rparr>)
      | Finishing \<Rightarrow> s\<lparr>emitted := emitted s @ [Status ''finished''], pc := Closed\<rparr>
      | Closed \<Rightarrow> s)"

text \<open>An interleaving of the two threads is a schedule: who takes the next step.\<close>

datatype actor = Worker | Consumer

fun run :: "actor list \<Rightarrow> stream_state \<Rightarrow> stream_state" where
  "run [] s = s"
| "run (Worker # sch) s = run sch (worker_step s)"
| "run (Consumer # sch) s = run sch (consumer_step s)"

text \<open>Projections of an event trace and of the worker's remaining puts.\<close>

fun answers :: "stream_event list \<Rightarrow> string list" where
  "answers [] = []"
| "answers (Answer t # es) = t # answers es"
| "answers (Status x # es) = answers es"

fun statuses :: "stream_event list \<Rightarrow> string list" where
  "statuses [] = []"
| "statuses (Status x # es) = x # statuses es"
| "statuses (Answer t # es) = statuses es"

fun answer_part :: "stream_event list \<Rightarrow> stream_event list" where
  "answer_part [] = []"
| "answer_part (Answer t # es) = Answer t # answer_part es"
| "answer_part (Status x # es) = (if x = ''answering'' then Status x # answer_part es else answer_part es)"

fun token_puts :: "worker_action list \<Rightarrow> string option list" where
  "token_puts [] = []"
| "token_puts (Put_token t # as) = t # token_puts as"
| "token_puts (Put_status x # as) = token_puts as"

fun status_puts :: "worker_action list \<Rightarrow> string list" where
  "status_puts [] = []"
| "status_puts (Put_status x # as) = x # status_puts as"
| "status_puts (Put_token t # as) = status_puts as"

text \<open>
  The usual run for one token: the worker announces itself, the consumer polls and drains,
  the token and then the sentinel arrive.
\<close>

definition usual_schedule :: "actor list" where
  "usual_schedule =
     [Worker, Worker, Consumer, Consumer, Consumer, Consumer, Consumer, Worker, Consumer, Consumer,
      Worker, Worker, Consumer, Consumer]"

text \<open>A run in which the worker has finished before the consumer reads its first token.\<close>

definition backlog_schedule :: "actor list" where
  "backlog_schedule =
     [Worker, Worker, Worker, Worker, Worker, Worker, Consumer, Consumer, Consumer, Consumer,
      Consumer, Consumer, Consumer, Consumer, Consumer, Consumer, Consumer]"

text \<open>
  Invariants of every interleaving. Tokens are conserved in order: the chunks emitted so
  far, the sentinel once it has been taken, the token queue and the worker's remaining token
  puts always spell the worker's whole token output \<open>all\<close>.
\<close>

definition tokens_conserved :: "string option list \<Rightarrow> stream_state \<Rightarrow> bool" where
  "tokens_conserved all s \<longleftrightarrow>
     map Some (answers (emitted s)) @
     (if pc s = Finishing \<or> pc s = Closed then [None] else []) @
     token_queue s @ token_puts (worker_todo s) = all"

text \<open>
  Statuses are conserved as a multiset: what has been emitted or is still queued or still to
  be put is the worker's status output \<open>prog\<close> plus the statuses the generator emits itself.
\<close>

definition statuses_conserved :: "string multiset \<Rightarrow> stream_state \<Rightarrow> bool" where
  "statuses_conserved prog s \<longleftrightarrow>
     mset (statuses (emitted s)) + mset (status_queue s) + mset (status_puts (worker_todo s)) =
       prog + (if pc s = At_start then {#} else {#''thinking''#}) +
       (if answer_started s then {#''answering''#} else {#}) +
       (if pc s = Closed then {#''finished''#} else {#})"

definition trace_shape :: "stream_state \<Rightarrow> bool" where
  "trace_shape s \<longleftrightarrow>
     (pc s = At_start \<longrightarrow> emitted s = []) \<and>
     (pc s \<noteq> At_start \<longrightarrow> (\<exists>rest. emitted s = Status ''thinking'' # rest)) \<and>
     (pc s = Closed \<longrightarrow> (\<exists>pre. emitted s = pre @ [Status ''finished''])) \<and>
     (answer_started s \<longleftrightarrow> answers (emitted s) \<noteq> []) \<and>
     answer_part (emitted s) =
       (if answer_started s then Status ''answering'' # map Answer (answers (emitted s)) else []) \<and>
     ''answering'' \<notin> set (status_queue s) \<and>
     ''answering'' \<notin> set (status_puts (worker_todo s))"

definition queues_bounded :: "nat \<Rightarrow> stream_state \<Rightarrow> bool" where
  "queues_bounded n s \<longleftrightarrow>
     length (token_queue s) + length (token_puts (worker_todo s)) \<le> n + 1 \<and>
     length (status_queue s) + length (status_puts (worker_todo s)) \<le> 3"

text \<open>A bound on the generator steps still needed once the worker has made all its puts.\<close>

definition steps_left :: "stream_state \<Rightarrow> nat" where
  "steps_left s =
     (case pc s of
        At_start \<Rightarrow> 2 * length (token_queue s) + length (status_queue s) + 3
      | Polling \<Rightarrow> 2 * length (token_queue s) + length (status_queue s) + 1
      | Draining \<Rightarrow> 2 * length (token_queue s) + length (status_queue s) + 2
      | Finishing \<Rightarrow> 1
      | Closed \<Rightarrow> 0)"

section \<open>Properties of the token relay\<close>

lemma occurs_at_0: "occurs_at m s 0 \<longleftrightarrow> prefix m s"
proof
  assume "occurs_at m s 0"
  then have "take (length m) s = m" by (simp add: occurs_at_def)
  then have "s = m @ drop (length m) s" by (metis append_take_drop_id)
  then show "prefix m s" by (metis prefixI)
next
  assume "prefix m s"
  then obtain zs where "s = m @ zs" by (auto simp: prefix_def)
  then show "occurs_at m s 0" by (simp add: occurs_at_def)
qed

lemma occurs_at_Cons_Suc: "occurs_at m (c # cs) (Suc i) \<longleftrightarrow> occurs_at m cs i"
  by (simp add: occurs_at_def)

lemma py_find_Some:
  "py_find m s = Some i \<Longrightarrow> occurs_at m s i \<and> (\<forall>j<i. \<not> occurs_at m s j)"
proof (induction s arbitrary: i)
  case Nil
  then show ?case by (auto simp: occurs_at_def split: if_splits)
next
  case (Cons c cs)
  show ?case
  proof (cases "prefix m (c # cs)")
    case True
    with Cons.prems show ?thesis by (simp add: occurs_at_0)
  next
    case False
    with Cons.prems obtain i' where i': "py_find m cs = Some i'" "i = Suc i'" by auto
    from Cons.IH[OF i'(1)] have ih: "occurs_at m cs i'" "\<forall>j<i'. \<not> occurs_at m cs j" by auto
    have "\<not> occurs_at m (c # cs) j" if "j < i" for j
    proof (cases j)
      case 0
      with False show ?thesis by (simp add: occurs_at_0)
    next
      case (Suc j')
      with that i'(2) ih(2) show ?thesis by (simp add: occurs_at_Cons_Suc)
    qed
    with ih(1) i'(2) show ?thesis by (simp add: occurs_at_Cons_Suc)
  qed
qed

lemma py_find_None: "py_find m s = None \<Longrightarrow> \<not> occurs_at m s i"
proof (induction s arbitrary: i)
  case Nil
  then show ?case by (auto simp: occurs_at_def split: if_splits)
next
  case (Cons c cs)
  then have np: "\<not> prefix m (c # cs)" and n: "py_find m cs = None"
    by (auto split: if_splits)
  show ?case
  proof (cases i)
    case 0
    with np show ?thesis by (simp add: occurs_at_0)
  next
    case (Suc i')
    with Cons.IH[OF n] show ?thesis by (simp add: occurs_at_Cons_Suc)
  qed
qed

lemma first_occurrence_unique:
  assumes "occurs_at m s i" "\<forall>j<i. \<not> occurs_at m s j"
    and "occurs_at m s k" "\<forall>j<k. \<not> occurs_at m s j"
  shows "i = k"
  using assms by (meson linorder_neqE_nat)

lemma py_find_first:
  "occurs_at m s i \<Longrightarrow> \<forall>j<i. \<not> occurs_at m s j \<Longrightarrow> py_find m s = Some i"
proof -
  assume a: "occurs_at m s i" "\<forall>j<i. \<not> occurs_at m s j"
  show ?thesis
  proof (cases "py_find m s")
    case None
    from py_find_None[OF None] a(1) show ?thesis by blast
  next
    case (Some k)
    from py_find_Some[OF Some] a first_occurrence_unique have "i = k" by blast
    with Some show ?thesis by simp
  qed
qed

lemma occurs_at_append: "occurs_at m s i \<Longrightarrow> occurs_at m (s @ r) i"
  by (auto simp: occurs_at_def)

lemma occurs_at_append_inside:
  "occurs_at m (s @ r) j \<Longrightarrow> j + length m \<le> length s \<Longrightarrow> occurs_at m s j"
  by (auto simp: occurs_at_def)

lemma py_find_append: "py_find m s = Some i \<Longrightarrow> py_find m (s @ r) = Some i"
proof -
  assume f: "py_find m s = Some i"
  from py_find_Some[OF f] have o: "occurs_at m s i" and l: "\<forall>j<i. \<not> occurs_at m s j" by auto
  from o have len: "i + length m \<le> length s" by (simp add: occurs_at_def)
  have "\<not> occurs_at m (s @ r) j" if "j < i" for j
    using that l len occurs_at_append_inside[of m s r j] by auto
  with occurs_at_append[OF o] show ?thesis by (intro py_find_first) auto
qed

lemma observe_tokens_started:
  "h_started h \<Longrightarrow> observe_tokens h ts = Inr (h\<lparr>h_q := h_q h @ ts\<rparr>)"
  by (induction ts arbitrary: h) (auto simp: on_llm_new_token_def)

lemma observe_tokens_waiting:
  assumes "h_marker h \<noteq> []" "\<not> h_started h" "py_find (h_marker h) (h_buffer h) = None"
  shows "\<exists>h'. observe_tokens h ts = Inr h' \<and>
           (py_find (h_marker h) (h_buffer h @ concat ts) = None \<longrightarrow> h_q h' = h_q h) \<and>
           (\<forall>i. py_find (h_marker h) (h_buffer h @ concat ts) = Some i \<longrightarrow>
              concat (h_q h') =
                concat (h_q h) @ drop (i + length (h_marker h)) (h_buffer h @ concat ts))"
  using assms
proof (induction ts arbitrary: h)
  case Nil
  then show ?case by simp
next
  case (Cons t ts)
  let ?m = "h_marker h"
  let ?b = "h_buffer h @ t"
  let ?h1 = "h\<lparr>h_buffer := ?b\<rparr>"
  show ?case
  proof (cases "py_find ?m ?b")
    case None
    then have step: "on_llm_new_token h t = Inr ?h1"
      using Cons.prems by (simp add: on_llm_new_token_def py_contains_def)
    have p: "h_marker ?h1 \<noteq> []" "\<not> h_started ?h1" "py_find (h_marker ?h1) (h_buffer ?h1) = None"
      using Cons.prems None by simp_all
    from Cons.IH[OF p] obtain h' where
      r: "observe_tokens ?h1 ts = Inr h'"
      and n: "py_find ?m (?b @ concat ts) = None \<longrightarrow> h_q h' = h_q h"
      and s: "\<forall>i. py_find ?m (?b @ concat ts) = Some i \<longrightarrow>
              concat (h_q h') = concat (h_q h) @ drop (i + length ?m) (?b @ concat ts)"
      by auto
    from step r have "observe_tokens h (t # ts) = Inr h'" by simp
    with n s show ?thesis by simp
  next
    case (Some i)
    from py_find_Some[OF Some] have len: "i + length ?m \<le> length ?b"
      by (simp add: occurs_at_def)
    let ?after = "drop (i + length ?m) ?b"
    let ?h2 = "(if ?after \<noteq> [] then ?h1\<lparr>h_q := h_q ?h1 @ [?after]\<rparr> else ?h1)\<lparr>h_started := True\<rparr>"
    have step: "on_llm_new_token h t = Inr ?h2"
      using Cons.prems Some
      by (simp add: on_llm_new_token_def py_contains_def py_split1_snd_def Let_def)
    have st: "h_started ?h2" by simp
    have run: "observe_tokens h (t # ts) = Inr (?h2\<lparr>h_q := h_q ?h2 @ ts\<rparr>)"
      using step observe_tokens_started[OF st, of ts] by simp
    have whole: "py_find ?m (h_buffer h @ concat (t # ts)) = Some i"
      using py_find_append[OF Some, of "concat ts"] by simp
    have c1: "concat (h_q ?h2) = concat (h_q h) @ ?after" by simp
    have c2: "drop (i + length ?m) (h_buffer h @ concat (t # ts)) = ?after @ concat ts"
      using len by simp
    have "concat (h_q (?h2\<lparr>h_q := h_q ?h2 @ ts\<rparr>)) =
            concat (h_q h) @ drop (i + length ?m) (h_buffer h @ concat (t # ts))"
      unfolding c2 using c1 by simp
    with run whole show ?thesis by simp
  qed
qed

text \<open>
  Claim C3. Whatever tokens the callback observes, nothing up to and including the first
  occurrence of the marker in the concatenated token text reaches the queue: the queue's
  concatenation is exactly the text after that first occurrence (and the queue stays empty
  when the marker never occurs). For the stream
  \<open>[''Thought: x'', ''Final Answer:'', '' Hello'', '' world'']\<close> the queue holds exactly
  \<open>['' Hello'', '' world'']\<close>.
\<close>

theorem relay_forwards_only_after_marker:
  "(marker \<noteq> [] \<longrightarrow>
     (\<exists>h. observe_tokens (SSECallbackHandler_init [] marker) toks = Inr h \<and>
        ((\<forall>i. \<not> occurs_at marker (concat toks) i) \<longrightarrow> h_q h = []) \<and>
        (\<forall>i. occurs_at marker (concat toks) i \<and> (\<forall>j<i. \<not> occurs_at marker (concat toks) j)
           \<longrightarrow> concat (h_q h) = drop (i + length marker) (concat toks)))) \<and>
   map_sum id h_q (observe_tokens (SSECallbackHandler_init [] ''Final Answer:'')
      [''Thought: x'', ''Final Answer:'', '' Hello'', '' world'']) = Inr ['' Hello'', '' world'']"
proof (intro conjI impI)
  assume ne: "marker \<noteq> []"
  let ?h0 = "SSECallbackHandler_init [] marker"
  have p: "h_marker ?h0 \<noteq> []" "\<not> h_started ?h0" "py_find (h_marker ?h0) (h_buffer ?h0) = None"
    using ne by (simp_all add: SSECallbackHandler_init_def)
  have sel: "h_marker ?h0 = marker" "h_buffer ?h0 = []" "h_q ?h0 = []"
    by (simp_all add: SSECallbackHandler_init_def)
  from observe_tokens_waiting[OF p, of toks]
  obtain h where h: "observe_tokens ?h0 toks = Inr h"
    and n: "py_find marker (concat toks) = None \<longrightarrow> h_q h = []"
    and s: "\<forall>i. py_find marker (concat toks) = Some i \<longrightarrow>
              concat (h_q h) = drop (i + length marker) (concat toks)"
    unfolding sel by auto
  have a: "h_q h = []" if "\<forall>i. \<not> occurs_at marker (concat toks) i"
  proof (cases "py_find marker (concat toks)")
    case None
    with n show ?thesis by simp
  next
    case (Some i)
    from py_find_Some[OF Some] that show ?thesis by blast
  qed
  have b: "concat (h_q h) = drop (i + length marker) (concat toks)"
    if "occurs_at marker (concat toks) i \<and> (\<forall>j<i. \<not> occurs_at marker (concat toks) j)" for i
  proof -
    from that have "py_find marker (concat toks) = Some i" by (intro py_find_first) auto
    with s show ?thesis by simp
  qed
  from h a b show "\<exists>h. observe_tokens ?h0 toks = Inr h \<and>
        ((\<forall>i. \<not> occurs_at marker (concat toks) i) \<longrightarrow> h_q h = []) \<and>
        (\<forall>i. occurs_at marker (concat toks) i \<and> (\<forall>j<i. \<not> occurs_at marker (concat toks) j)
           \<longrightarrow> concat (h_q h) = drop (i + length marker) (concat toks))"
    by blast
next
  show "map_sum id h_q (observe_tokens (SSECallbackHandler_init [] ''Final Answer:'')
      [''Thought: x'', ''Final Answer:'', '' Hello'', '' world'']) = Inr ['' Hello'', '' world'']"
    by (simp add: SSECallbackHandler_init_def on_llm_new_token_def py_contains_def py_split1_snd_def)
qed

theorem relay_forwards_only_after_marker_witness:
  "''Final Answer:'' \<noteq> [] \<and>
   occurs_at ''Final Answer:'' (concat [''Thought: x Fin'', ''al Answer: He'', ''llo'']) 11 \<and>
   (\<exists>h. observe_tokens (SSECallbackHandler_init [] ''Final Answer:'')
           [''Thought: x Fin'', ''al Answer: He'', ''llo''] = Inr h \<and>
        concat (h_q h) = '' Hello'')"
proof -
  let ?m = "''Final Answer:''"
  let ?toks = "[''Thought: x Fin'', ''al Answer: He'', ''llo'']"
  have f: "py_find ?m (concat ?toks) = Some 11" by simp
  from py_find_Some[OF f] have o: "occurs_at ?m (concat ?toks) 11"
    and l: "\<forall>j<11. \<not> occurs_at ?m (concat ?toks) j" by blast+
  have ne: "?m \<noteq> []" by simp
  from relay_forwards_only_after_marker[of ?m ?toks] ne
  obtain h where h: "observe_tokens (SSECallbackHandler_init [] ?m) ?toks = Inr h"
    and c: "\<forall>i. occurs_at ?m (concat ?toks) i \<and> (\<forall>j<i. \<not> occurs_at ?m (concat ?toks) j)
           \<longrightarrow> concat (h_q h) = drop (i + length ?m) (concat ?toks)"
    by blast
  from c o l have "concat (h_q h) = drop (11 + length ?m) (concat ?toks)" by blast
  then have "concat (h_q h) = '' Hello''" by simp
  with ne o h show ?thesis by blast
qed

section \<open>Properties of the input parser\<close>

lemma py_strip_blank: "blank s \<Longrightarrow> py_strip s = []"
proof -
  assume "blank s"
  then have "\<forall>c\<in>set s. py_isspace c"
    by (simp add: blank_def list_all_iff)
  then have d: "dropWhile py_isspace s = []"
    by (induction s) simp_all
  show ?thesis unfolding py_strip_def d by simp
qed

lemma py_strip_Nil: "py_strip [] = []"
  by (simp add: py_strip_def)

lemma clean_queries_blank:
  "list_all blank bs \<Longrightarrow> clean_queries (map JString bs) = Inr []"
  by (induction bs) (simp_all add: py_strip_blank)

lemma parse_queries_nonempty: "parse_queries json_loads py_str query_input = Inr qs \<Longrightarrow> qs \<noteq> []"
  by (auto simp: parse_queries_def split: sum.splits if_splits)

lemma parse_queries_blank_items:
  assumes "py_iter (extract_queries json_loads py_str query_input) = Inr (map JString bs)"
    and "list_all blank bs"
  shows "parse_queries json_loads py_str query_input = Inr [''general dementia care information'']"
  using assms by (simp add: parse_queries_def clean_queries_blank default_query_def)

text \<open>
  Claim C10. An input that is empty or whitespace only (\<^verbatim>\<open>json.loads\<close> rejects it), or that
  parses to a list of blank strings - directly, under the key \<^verbatim>\<open>queries_json\<close> as a list or
  as a JSON text, or as a double-encoded JSON text - is parsed without an exception into the
  single default query; so is any input for which the loop over \<^verbatim>\<open>queries\<close> meets blank
  strings only. Whatever the input and whatever \<^verbatim>\<open>json.loads\<close> returns, a sub-query list that
  parsing hands on to the search is never empty.
\<close>

theorem parser_defaults_and_never_empty:
  "(blank query_input \<and> json_loads query_input = None \<longrightarrow>
      parse_queries json_loads py_str query_input = Inr [''general dementia care information'']) \<and>
   (json_loads query_input = Some (JArray (map JString bs)) \<and> list_all blank bs \<longrightarrow>
      parse_queries json_loads py_str query_input = Inr [''general dementia care information'']) \<and>
   (\<forall>qs. parse_queries json_loads py_str query_input = Inr qs \<longrightarrow> qs \<noteq> []) \<and>
   (json_loads query_input = Some (JObject kvs) \<and>
    map_of kvs ''queries_json'' = Some (JArray (map JString bs)) \<and> list_all blank bs \<longrightarrow>
      parse_queries json_loads py_str query_input = Inr [''general dementia care information'']) \<and>
   (json_loads query_input = Some (JObject kvs) \<and> map_of kvs ''queries_json'' = Some (JString inner) \<and>
    json_loads inner = Some (JArray (map JString bs)) \<and> list_all blank bs \<longrightarrow>
      parse_queries json_loads py_str query_input = Inr [''general dementia care information'']) \<and>
   (json_loads query_input = Some (JString inner) \<and>
    json_loads inner = Some (JArray (map JString bs)) \<and> list_all blank bs \<longrightarrow>
      parse_queries json_loads py_str query_input = Inr [''general dementia care information'']) \<and>
   (py_iter (extract_queries json_loads py_str query_input) = Inr (map JString bs) \<and>
    list_all blank bs \<longrightarrow>
      parse_queries json_loads py_str query_input = Inr [''general dementia care information''])"
proof (intro conjI impI allI)
  assume "blank query_input \<and> json_loads query_input = None"
  then show "parse_queries json_loads py_str query_input = Inr [''general dementia care information'']"
    by (simp add: parse_queries_def extract_queries_def py_strip_blank py_strip_Nil default_query_def)
next
  assume a: "json_loads query_input = Some (JArray (map JString bs)) \<and> list_all blank bs"
  then have it: "py_iter (extract_queries json_loads py_str query_input) = Inr (map JString bs)"
    by (simp add: extract_queries_def)
  from a have bl: "list_all blank bs" by blast
  from it bl show "parse_queries json_loads py_str query_input = Inr [''general dementia care information'']"
    by (rule parse_queries_blank_items)
next
  fix qs
  assume "parse_queries json_loads py_str query_input = Inr qs"
  then show "qs \<noteq> []" by (rule parse_queries_nonempty)
next
  assume a: "json_loads query_input = Some (JObject kvs) \<and>
    map_of kvs ''queries_json'' = Some (JArray (map JString bs)) \<and> list_all blank bs"
  then have it: "py_iter (extract_queries json_loads py_str query_input) = Inr (map JString bs)"
    by (simp add: extract_queries_def)
  from a have bl: "list_all blank bs" by blast
  from it bl show "parse_queries json_loads py_str query_input = Inr [''general dementia care information'']"
    by (rule parse_queries_blank_items)
next
  assume a: "json_loads query_input = Some (JObject kvs) \<and> map_of kvs ''queries_json'' = Some (JString inner) \<and>
    json_loads inner = Some (JArray (map JString bs)) \<and> list_all blank bs"
  then have it: "py_iter (extract_queries json_loads py_str query_input) = Inr (map JString bs)"
    by (simp add: extract_queries_def)
  from a have bl: "list_all blank bs" by blast
  from it bl show "parse_queries json_loads py_str query_input = Inr [''general dementia care information'']"
    by (rule parse_queries_blank_items)
next
  assume a: "json_loads query_input = Some (JString inner) \<and>
    json_loads inner = Some (JArray (map JString bs)) \<and> list_all blank bs"
  then have it: "py_iter (extract_queries json_loads py_str query_input) = Inr (map JString bs)"
    by (simp add: extract_queries_def)
  from a have bl: "list_all blank bs" by blast
  from it bl show "parse_queries json_loads py_str query_input = Inr [''general dementia care information'']"
    by (rule parse_queries_blank_items)
next
  assume a: "py_iter (extract_queries json_loads py_str query_input) = Inr (map JString bs) \<and>
    list_all blank bs"
  then have it: "py_iter (extract_queries json_loads py_str query_input) = Inr (map JString bs)"
    and bl: "list_all blank bs" by blast+
  from it bl show "parse_queries json_loads py_str query_input = Inr [''general dementia care information'']"
    by (rule parse_queries_blank_items)
qed

lemma sample_texts_distinct:
  "text_one_blank \<noteq> text_blank_list" "text_object_list \<noteq> text_blank_list"
  "text_object_list \<noteq> text_one_blank" "text_object_string \<noteq> text_blank_list"
  "text_object_string \<noteq> text_one_blank" "text_object_string \<noteq> text_object_list"
  "text_double_encoded \<noteq> text_blank_list" "text_double_encoded \<noteq> text_one_blank"
  "text_double_encoded \<noteq> text_object_list" "text_double_encoded \<noteq> text_object_string"
  by (simp_all add: text_one_blank_def text_blank_list_def text_object_list_def
      text_object_string_def text_double_encoded_def text_escaped_one_blank_def dq_def bsl_def)

lemma sample_loads_values:
  "sample_loads text_whitespace = None"
  "sample_loads '' night wandering '' = None"
  "sample_loads text_blank_list =
     Some (JArray (map JString ['' '', [CHR 0xA0, CHR 0x85], []]))"
  "sample_loads text_one_blank = Some (JArray (map JString ['' '']))"
  "sample_loads text_object_list = Some (JObject [(''queries_json'', JArray (map JString ['' '']))])"
  "sample_loads text_object_string = Some (JObject [(''queries_json'', JString text_one_blank)])"
  "sample_loads text_double_encoded = Some (JString text_one_blank)"
proof -
  show "sample_loads text_whitespace = None"
    by (simp add: sample_loads_def text_whitespace_def text_one_blank_def text_blank_list_def
        text_object_list_def text_object_string_def text_double_encoded_def
        text_escaped_one_blank_def dq_def bsl_def)
  show "sample_loads '' night wandering '' = None"
    by (simp add: sample_loads_def text_one_blank_def text_blank_list_def
        text_object_list_def text_object_string_def text_double_encoded_def
        text_escaped_one_blank_def dq_def bsl_def)
  show "sample_loads text_blank_list =
     Some (JArray (map JString ['' '', [CHR 0xA0, CHR 0x85], []]))"
    by (simp add: sample_loads_def)
  show "sample_loads text_one_blank = Some (JArray (map JString ['' '']))"
    by (simp add: sample_loads_def sample_texts_distinct)
  show "sample_loads text_object_list = Some (JObject [(''queries_json'', JArray (map JString ['' '']))])"
    by (simp add: sample_loads_def sample_texts_distinct)
  show "sample_loads text_object_string = Some (JObject [(''queries_json'', JString text_one_blank)])"
    by (simp add: sample_loads_def sample_texts_distinct)
  show "sample_loads text_double_encoded = Some (JString text_one_blank)"
    by (simp add: sample_loads_def sample_texts_distinct)
qed

lemma sample_blanks:
  "blank text_whitespace" "list_all blank ['' '', [CHR 0xA0, CHR 0x85], []]" "list_all blank ['' '']"
  by (simp_all add: blank_def py_isspace_def text_whitespace_def)

theorem parser_defaults_and_never_empty_witness:
  "blank text_whitespace \<and> sample_loads text_whitespace = None \<and>
   parse_queries sample_loads (\<lambda>v. ''x'') text_whitespace = Inr [''general dementia care information''] \<and>
   sample_loads text_blank_list = Some (JArray (map JString ['' '', [CHR 0xA0, CHR 0x85], []])) \<and>
   list_all blank ['' '', [CHR 0xA0, CHR 0x85], []] \<and>
   parse_queries sample_loads (\<lambda>v. ''x'') text_blank_list = Inr [''general dementia care information''] \<and>
   sample_loads text_object_list = Some (JObject [(''queries_json'', JArray (map JString ['' '']))]) \<and>
   map_of [(''queries_json'', JArray (map JString ['' '']))] ''queries_json''
     = Some (JArray (map JString ['' ''])) \<and>
   list_all blank ['' ''] \<and>
   parse_queries sample_loads (\<lambda>v. ''x'') text_object_list = Inr [''general dementia care information''] \<and>
   sample_loads text_object_string = Some (JObject [(''queries_json'', JString text_one_blank)]) \<and>
   sample_loads text_one_blank = Some (JArray (map JString ['' ''])) \<and>
   parse_queries sample_loads (\<lambda>v. ''x'') text_object_string = Inr [''general dementia care information''] \<and>
   sample_loads text_double_encoded = Some (JString text_one_blank) \<and>
   parse_queries sample_loads (\<lambda>v. ''x'') text_double_encoded = Inr [''general dementia care information''] \<and>
   parse_queries sample_loads (\<lambda>v. ''x'') '' night wandering '' = Inr [''night wandering''] \<and>
   [''night wandering''] \<noteq> []"
proof -
  let ?str = "\<lambda>v::json. ''x''"
  let ?default = "Inr [''general dementia care information''] :: py_exception + string list"
  note v = sample_loads_values
  note b = sample_blanks
  have m: "map_of [(''queries_json'', JArray (map JString ['' '']))] ''queries_json''
     = Some (JArray (map JString ['' '']))" by simp
  have m2: "map_of [(''queries_json'', JString text_one_blank)] ''queries_json''
     = Some (JString text_one_blank)" by simp
  from parser_defaults_and_never_empty[of text_whitespace sample_loads ?str] b(1) v(1)
  have 1: "parse_queries sample_loads ?str text_whitespace = ?default" by blast
  from parser_defaults_and_never_empty[of text_blank_list sample_loads ?str
      "['' '', [CHR 0xA0, CHR 0x85], []]"] v(3) b(2)
  have 2: "parse_queries sample_loads ?str text_blank_list = ?default" by blast
  from parser_defaults_and_never_empty[of text_object_list sample_loads ?str "['' '']"
      "[(''queries_json'', JArray (map JString ['' '']))]"] v(5) m b(3)
  have 3: "parse_queries sample_loads ?str text_object_list = ?default" by blast
  from parser_defaults_and_never_empty[of text_object_string sample_loads ?str "['' '']"
      "[(''queries_json'', JString text_one_blank)]" text_one_blank] v(6) m2 v(4) b(3)
  have 4: "parse_queries sample_loads ?str text_object_string = ?default" by blast
  from parser_defaults_and_never_empty[of text_double_encoded sample_loads ?str "['' '']" _
      text_one_blank] v(7) v(4) b(3)
  have 5: "parse_queries sample_loads ?str text_double_encoded = ?default" by blast
  have p: "parse_queries sample_loads ?str '' night wandering '' = Inr [''night wandering'']"
    using v(2)
    by (simp add: parse_queries_def extract_queries_def py_strip_def py_isspace_def)
  from parser_defaults_and_never_empty[of "'' night wandering ''" sample_loads ?str] p
  have 6: "[''night wandering''] \<noteq> ([] :: string list)" by blast
  from b v m 1 2 3 4 5 p 6 show ?thesis by (intro conjI)
qed

section \<open>Properties of the dual-track search executor\<close>

lemma body_embed_raises: "vo_embed sv [qry] = Inl e \<Longrightarrow> dual_track_body sv t0 t1 qry sid = Inl e"
  by (simp add: dual_track_body_def)

lemma body_embed_empty: "vo_embed sv [qry] = Inr [] \<Longrightarrow> dual_track_body sv t0 t1 qry sid = Inl IndexError"
  by (simp add: dual_track_body_def)

lemma body_simple_raises:
  "vo_embed sv [qry] = Inr (emb # embs) \<Longrightarrow>
   supabase_rpc sv ''simple_hybrid_search'' (make_search_params emb qry) = Inl e \<Longrightarrow>
   dual_track_body sv t0 t1 qry sid = Inl e"
  by (simp add: dual_track_body_def)

lemma body_title_raises:
  "vo_embed sv [qry] = Inr (emb # embs) \<Longrightarrow>
   supabase_rpc sv ''simple_hybrid_search'' (make_search_params emb qry) = Inr d \<Longrightarrow>
   supabase_rpc sv ''title_filtered_search'' (make_title_params emb qry) = Inl e \<Longrightarrow>
   dual_track_body sv t0 t1 qry sid = Inl e"
  by (simp add: dual_track_body_def)

lemma body_returns:
  "dual_track_body sv t0 t1 qry sid = Inr r \<Longrightarrow>
   query r = qry \<and> search_id r = sid \<and> search_time r = t1 - t0 \<and> error r = None"
  by (auto simp: dual_track_body_def Let_def split: sum.splits list.splits)

lemma execute_of_body_raises:
  "dual_track_body sv t0 t1 qry sid = Inl e \<Longrightarrow>
   execute_dual_track_search sv t0 t1 qry sid = Inr (search_failed t0 t1 qry sid e)"
  by (simp add: execute_dual_track_search_def)

lemma execute_returns:
  "\<exists>r. execute_dual_track_search sv t0 t1 qry sid = Inr r \<and> query r = qry \<and> search_id r = sid \<and>
       search_time r = t1 - t0 \<and> (error r \<noteq> None \<longrightarrow> results r = [])"
proof (cases "dual_track_body sv t0 t1 qry sid")
  case (Inl e)
  then show ?thesis by (simp add: execute_dual_track_search_def search_failed_def)
next
  case (Inr r)
  with body_returns[OF Inr] show ?thesis by (simp add: execute_dual_track_search_def)
qed

lemma execute_body_ok:
  assumes "vo_embed sv [qry] = Inr (emb # embs)"
    and "supabase_rpc sv ''simple_hybrid_search'' (make_search_params emb qry) = Inr d1"
    and "supabase_rpc sv ''title_filtered_search'' (make_title_params emb qry) = Inr d2"
  shows "execute_dual_track_search sv t0 t1 qry sid =
     Inr \<lparr>query = qry, search_id = sid,
          results = (if combine_tracks (data_or_empty d1 @ data_or_empty d2) {} \<noteq> []
                     then rank_results sv qry (combine_tracks (data_or_empty d1 @ data_or_empty d2) {})
                     else []),
          search_time = t1 - t0,
          total_before_rerank = Some (length (combine_tracks (data_or_empty d1 @ data_or_empty d2) {})),
          total_after_rerank =
            Some (length (if combine_tracks (data_or_empty d1 @ data_or_empty d2) {} \<noteq> []
                     then rank_results sv qry (combine_tracks (data_or_empty d1 @ data_or_empty d2) {})
                     else [])),
          error = None\<rparr>"
  using assms by (simp add: execute_dual_track_search_def dual_track_body_def Let_def)

text \<open>
  Claim C2, as the code has it. A failing track is not replaced by the other track's rows:
  the exception of either retrieval call reaches the executor's handler, and the result is
  the error-populated one with no records.
\<close>

theorem track_failure_fails_the_search:
  "vo_embed sv [qry] = Inr (emb # embs) \<Longrightarrow>
   supabase_rpc sv ''simple_hybrid_search'' (make_search_params emb qry) = Inl e \<or>
   (supabase_rpc sv ''simple_hybrid_search'' (make_search_params emb qry) = Inr d \<and>
    supabase_rpc sv ''title_filtered_search'' (make_title_params emb qry) = Inl e) \<Longrightarrow>
   \<exists>r. execute_dual_track_search sv t0 t1 qry sid = Inr r \<and> results r = [] \<and>
       error r = Some (''Search failed for '' @ [CHR 0x27] @ qry @ [CHR 0x27] @ '': '' @ exc_message e)"
proof -
  assume emb: "vo_embed sv [qry] = Inr (emb # embs)"
  assume "supabase_rpc sv ''simple_hybrid_search'' (make_search_params emb qry) = Inl e \<or>
   (supabase_rpc sv ''simple_hybrid_search'' (make_search_params emb qry) = Inr d \<and>
    supabase_rpc sv ''title_filtered_search'' (make_title_params emb qry) = Inl e)"
  then have "dual_track_body sv t0 t1 qry sid = Inl e"
    using emb body_simple_raises body_title_raises by blast
  then show ?thesis
    by (simp add: execute_of_body_raises search_failed_def)
qed

theorem track_failure_fails_the_search_witness:
  "vo_embed title_track_down [''q''] = Inr ([1] # []) \<and>
   supabase_rpc title_track_down ''simple_hybrid_search'' (make_search_params [1] ''q'')
     = Inr (Some [db_row 7 ''g'' (4 / 5)]) \<and>
   supabase_rpc title_track_down ''title_filtered_search'' (make_title_params [1] ''q'')
     = Inl (ServiceError ''timeout'') \<and>
   (\<exists>r. execute_dual_track_search title_track_down 0 1 ''q'' (Some ''Q1'') = Inr r \<and> results r = [] \<and>
       error r = Some (''Search failed for '' @ [CHR 0x27] @ ''q'' @ [CHR 0x27] @ '': '' @ ''timeout''))"
proof -
  have a: "vo_embed title_track_down [''q''] = Inr ([1] # [])"
    by (simp add: title_track_down_def)
  have b: "supabase_rpc title_track_down ''simple_hybrid_search'' (make_search_params [1] ''q'')
     = Inr (Some [db_row 7 ''g'' (4 / 5)])"
    by (simp add: title_track_down_def)
  have c: "supabase_rpc title_track_down ''title_filtered_search'' (make_title_params [1] ''q'')
     = Inl (ServiceError ''timeout'')"
    by (simp add: title_track_down_def)
  from b c have bc: "supabase_rpc title_track_down ''simple_hybrid_search'' (make_search_params [1] ''q'')
       = Inl (ServiceError ''timeout'') \<or>
     (supabase_rpc title_track_down ''simple_hybrid_search'' (make_search_params [1] ''q'')
       = Inr (Some [db_row 7 ''g'' (4 / 5)]) \<and>
      supabase_rpc title_track_down ''title_filtered_search'' (make_title_params [1] ''q'')
       = Inl (ServiceError ''timeout''))" by blast
  from track_failure_fails_the_search[OF a bc, of 0 1 "Some ''Q1''"] a b c
  show ?thesis by simp
qed

text \<open>
  The claim as the spec words it fails: with the simple track down and the title track
  returning a row, the result carries no record and an error.
\<close>

theorem one_track_down_counterexample:
  "supabase_rpc simple_track_down ''simple_hybrid_search'' (make_search_params [1] ''q'')
     = Inl (ServiceError ''timeout'') \<and>
   supabase_rpc simple_track_down ''title_filtered_search'' (make_title_params [1] ''q'')
     = Inr (Some [db_row 7 ''g'' (4 / 5)]) \<and>
   execute_dual_track_search simple_track_down 0 1 ''q'' (Some ''Q1'') =
     Inr \<lparr>query = ''q'', search_id = Some ''Q1'', results = [], search_time = 1,
          total_before_rerank = None, total_after_rerank = None,
          error = Some (''Search failed for '' @ [CHR 0x27] @ ''q'' @ [CHR 0x27] @ '': timeout'')\<rparr>"
  by (simp add: execute_dual_track_search_def dual_track_body_def simple_track_down_def
      search_failed_def)

lemma body_returns_after_retrieval:
  assumes "vo_embed sv [qry] = Inr (emb # embs)"
    and "supabase_rpc sv ''simple_hybrid_search'' (make_search_params emb qry) = Inr d1"
    and "supabase_rpc sv ''title_filtered_search'' (make_title_params emb qry) = Inr d2"
  shows "\<exists>r. dual_track_body sv t0 t1 qry sid = Inr r \<and> error r = None"
  using assms by (simp add: dual_track_body_def Let_def)

text \<open>
  Claim C6, as the code has it. The executor always returns a result and never an
  exception. The result carries the query, the search id and the elapsed time, and an
  error-populated result has no records. The exceptions that leave the body - from the
  embedding call, from an empty embedding list, from either retrieval call - are turned
  into the error result; once both retrieval calls have returned nothing leaves the body
  any more, an exception of the rerank step being handled by that step's own fallback.
\<close>

theorem executor_isolates_failures:
  "(\<exists>r. execute_dual_track_search sv t0 t1 qry sid = Inr r \<and> query r = qry \<and> search_id r = sid \<and>
        search_time r = t1 - t0 \<and> (error r \<noteq> None \<longrightarrow> results r = [])) \<and>
   (\<forall>e. dual_track_body sv t0 t1 qry sid = Inl e \<longrightarrow>
        execute_dual_track_search sv t0 t1 qry sid =
          Inr \<lparr>query = qry, search_id = sid, results = [], search_time = t1 - t0,
               total_before_rerank = None, total_after_rerank = None,
               error = Some (''Search failed for '' @ [CHR 0x27] @ qry @ [CHR 0x27] @ '': '' @
                             exc_message e)\<rparr>) \<and>
   (\<forall>e. vo_embed sv [qry] = Inl e \<longrightarrow> dual_track_body sv t0 t1 qry sid = Inl e) \<and>
   (vo_embed sv [qry] = Inr [] \<longrightarrow> dual_track_body sv t0 t1 qry sid = Inl IndexError) \<and>
   (\<forall>emb embs e. vo_embed sv [qry] = Inr (emb # embs) \<and>
        supabase_rpc sv ''simple_hybrid_search'' (make_search_params emb qry) = Inl e \<longrightarrow>
        dual_track_body sv t0 t1 qry sid = Inl e) \<and>
   (\<forall>emb embs d e. vo_embed sv [qry] = Inr (emb # embs) \<and>
        supabase_rpc sv ''simple_hybrid_search'' (make_search_params emb qry) = Inr d \<and>
        supabase_rpc sv ''title_filtered_search'' (make_title_params emb qry) = Inl e \<longrightarrow>
        dual_track_body sv t0 t1 qry sid = Inl e) \<and>
   (\<forall>emb embs d1 d2. vo_embed sv [qry] = Inr (emb # embs) \<and>
        supabase_rpc sv ''simple_hybrid_search'' (make_search_params emb qry) = Inr d1 \<and>
        supabase_rpc sv ''title_filtered_search'' (make_title_params emb qry) = Inr d2 \<longrightarrow>
        (\<exists>r. dual_track_body sv t0 t1 qry sid = Inr r \<and> error r = None))"
proof (intro conjI allI impI)
  show "\<exists>r. execute_dual_track_search sv t0 t1 qry sid = Inr r \<and> query r = qry \<and> search_id r = sid \<and>
        search_time r = t1 - t0 \<and> (error r \<noteq> None \<longrightarrow> results r = [])"
    by (rule execute_returns)
next
  fix e assume "dual_track_body sv t0 t1 qry sid = Inl e"
  then show "execute_dual_track_search sv t0 t1 qry sid =
          Inr \<lparr>query = qry, search_id = sid, results = [], search_time = t1 - t0,
               total_before_rerank = None, total_after_rerank = None,
               error = Some (''Search failed for '' @ [CHR 0x27] @ qry @ [CHR 0x27] @ '': '' @
                             exc_message e)\<rparr>"
    by (simp add: execute_of_body_raises search_failed_def)
next
  fix e assume "vo_embed sv [qry] = Inl e"
  then show "dual_track_body sv t0 t1 qry sid = Inl e" by (rule body_embed_raises)
next
  assume "vo_embed sv [qry] = Inr []"
  then show "dual_track_body sv t0 t1 qry sid = Inl IndexError" by (rule body_embed_empty)
next
  fix emb embs e
  assume "vo_embed sv [qry] = Inr (emb # embs) \<and>
        supabase_rpc sv ''simple_hybrid_search'' (make_search_params emb qry) = Inl e"
  then show "dual_track_body sv t0 t1 qry sid = Inl e" using body_simple_raises by blast
next
  fix emb embs d e
  assume "vo_embed sv [qry] = Inr (emb # embs) \<and>
        supabase_rpc sv ''simple_hybrid_search'' (make_search_params emb qry) = Inr d \<and>
        supabase_rpc sv ''title_filtered_search'' (make_title_params emb qry) = Inl e"
  then show "dual_track_body sv t0 t1 qry sid = Inl e" using body_title_raises by blast
next
  fix emb embs d1 d2
  assume "vo_embed sv [qry] = Inr (emb # embs) \<and>
        supabase_rpc sv ''simple_hybrid_search'' (make_search_params emb qry) = Inr d1 \<and>
        supabase_rpc sv ''title_filtered_search'' (make_title_params emb qry) = Inr d2"
  then show "\<exists>r. dual_track_body sv t0 t1 qry sid = Inr r \<and> error r = None"
    using body_returns_after_retrieval by blast
qed

text \<open>
  The claim as the spec words it fails for an exception of the rerank call: the executor
  catches it, but the result it returns has records and no error.
\<close>

theorem rerank_exception_counterexample:
  "co_rerank rerank_down ''q'' (map content five_rows) (min 10 (length five_rows))
     = Inl (ServiceError ''rerank unavailable'') \<and>
   map_sum id error (execute_dual_track_search rerank_down 0 1 ''q'' (Some ''Q1'')) = Inr None \<and>
   map_sum id (\<lambda>r. map row_id (results r))
     (execute_dual_track_search rerank_down 0 1 ''q'' (Some ''Q1'')) = Inr [2, 4, 3, 5, 1]"
  by (simp add: execute_dual_track_search_def dual_track_body_def rerank_down_def five_rows_def
      db_row_def make_search_params_def make_title_params_def data_or_empty_def rank_results_def
      similarity_fallback_def similarity_or_0_def)

theorem executor_isolates_failures_witness:
  "vo_embed embedding_down [''q''] = Inl (ServiceError ''no embedding'') \<and>
   dual_track_body embedding_down 0 1 ''q'' (Some ''Q2'') = Inl (ServiceError ''no embedding'') \<and>
   execute_dual_track_search embedding_down 0 1 ''q'' (Some ''Q2'') =
     Inr \<lparr>query = ''q'', search_id = Some ''Q2'', results = [], search_time = 1 - 0,
          total_before_rerank = None, total_after_rerank = None,
          error = Some (''Search failed for '' @ [CHR 0x27] @ ''q'' @ [CHR 0x27] @ '': '' @
                        exc_message (ServiceError ''no embedding''))\<rparr> \<and>
   vo_embed simple_track_down [''q''] = Inr ([1] # []) \<and>
   supabase_rpc simple_track_down ''simple_hybrid_search'' (make_search_params [1] ''q'')
     = Inl (ServiceError ''timeout'') \<and>
   dual_track_body simple_track_down 0 1 ''q'' None = Inl (ServiceError ''timeout'') \<and>
   (\<exists>r. execute_dual_track_search rerank_down 0 1 ''q'' None = Inr r \<and> query r = ''q'' \<and>
        search_id r = None \<and> search_time r = 1 - 0 \<and> error r = None \<and> length (results r) = 5)"
proof -
  have a: "vo_embed embedding_down [''q''] = Inl (ServiceError ''no embedding'')"
    by (simp add: embedding_down_def)
  note t1 = executor_isolates_failures[of embedding_down 0 1 "''q''" "Some ''Q2''"]
  from t1 a have b: "dual_track_body embedding_down 0 1 ''q'' (Some ''Q2'') = Inl (ServiceError ''no embedding'')"
    by blast
  with t1 have c: "execute_dual_track_search embedding_down 0 1 ''q'' (Some ''Q2'') =
     Inr \<lparr>query = ''q'', search_id = Some ''Q2'', results = [], search_time = 1 - 0,
          total_before_rerank = None, total_after_rerank = None,
          error = Some (''Search failed for '' @ [CHR 0x27] @ ''q'' @ [CHR 0x27] @ '': '' @
                        exc_message (ServiceError ''no embedding''))\<rparr>"
    by blast
  have d: "vo_embed simple_track_down [''q''] = Inr ([1] # [])"
    and e: "supabase_rpc simple_track_down ''simple_hybrid_search'' (make_search_params [1] ''q'')
     = Inl (ServiceError ''timeout'')"
    by (simp_all add: simple_track_down_def)
  from executor_isolates_failures[of simple_track_down 0 1 "''q''" None] d e
  have f: "dual_track_body simple_track_down 0 1 ''q'' None = Inl (ServiceError ''timeout'')"
    by blast
  from executor_isolates_failures[of rerank_down 0 1 "''q''" None]
  obtain r where r: "execute_dual_track_search rerank_down 0 1 ''q'' None = Inr r" "query r = ''q''"
      "search_id r = None" "search_time r = 1 - 0" by blast
  have "execute_dual_track_search rerank_down 0 1 ''q'' None =
      Inr \<lparr>query = ''q'', search_id = None,
          results = similarity_fallback five_rows, search_time = 1,
          total_before_rerank = Some 5, total_after_rerank = Some 5, error = None\<rparr>"
    by (simp add: execute_dual_track_search_def dual_track_body_def rerank_down_def five_rows_def
        db_row_def data_or_empty_def rank_results_def similarity_fallback_def)
  with r have g: "error r = None \<and> length (results r) = 5"
    by (auto simp: similarity_fallback_def five_rows_def)
  from a b c d e f r g show ?thesis by blast
qed

lemma sorted_wrt_fallback:
  "sorted_wrt (\<lambda>a b. similarity_or_0 b \<le> similarity_or_0 a) (similarity_fallback xs)"
proof -
  have "sorted (map (\<lambda>x. - similarity_or_0 x) (sort_key (\<lambda>x. - similarity_or_0 x) xs))"
    by (rule sorted_sort_key)
  then have "sorted_wrt (\<lambda>a b. similarity_or_0 b \<le> similarity_or_0 a)
               (sort_key (\<lambda>x. - similarity_or_0 x) xs)"
    by (simp add: sorted_map)
  then show ?thesis unfolding similarity_fallback_def by (rule sorted_wrt_take)
qed

lemma mset_fallback_subset: "mset (similarity_fallback xs) \<subseteq># mset xs"
proof -
  have "mset (take 8 (sort_key (\<lambda>x. - similarity_or_0 x) xs)) \<subseteq>#
        mset (sort_key (\<lambda>x. - similarity_or_0 x) xs)"
    by (metis append_take_drop_id mset_append mset_subset_eq_add_left)
  then show ?thesis by (simp add: similarity_fallback_def)
qed

lemma mset_fallback_all: "length xs \<le> 8 \<Longrightarrow> mset (similarity_fallback xs) = mset xs"
  by (simp add: similarity_fallback_def)

text \<open>
  Claim C7. When both tracks return, the merged list is not empty and the rerank call
  raises, the executor's records are the merged records in descending order of similarity
  (equal similarities in merge order), cut to eight, and the result carries no error.
\<close>

theorem rerank_failure_falls_back_to_similarity:
  assumes "vo_embed sv [qry] = Inr (emb # embs)"
    and "supabase_rpc sv ''simple_hybrid_search'' (make_search_params emb qry) = Inr d1"
    and "supabase_rpc sv ''title_filtered_search'' (make_title_params emb qry) = Inr d2"
    and "merged = combine_tracks (data_or_empty d1 @ data_or_empty d2) {}"
    and "merged \<noteq> []"
    and "co_rerank sv qry (map content merged) (min 10 (length merged)) = Inl e"
  shows "\<exists>r. execute_dual_track_search sv t0 t1 qry sid = Inr r \<and>
           results r = take 8 (sort_key (\<lambda>x. - similarity_or_0 x) merged) \<and>
           error r = None \<and>
           sorted_wrt (\<lambda>a b. similarity_or_0 b \<le> similarity_or_0 a) (results r) \<and>
           length (results r) = min 8 (length merged) \<and>
           mset (results r) \<subseteq># mset merged \<and>
           (length merged \<le> 8 \<longrightarrow> mset (results r) = mset merged)"
proof -
  have rk: "rank_results sv qry merged = similarity_fallback merged"
    using assms(6) by (simp add: rank_results_def)
  from execute_body_ok[OF assms(1-3), of t0 t1 sid] assms(4,5) rk
  have ex: "execute_dual_track_search sv t0 t1 qry sid =
     Inr \<lparr>query = qry, search_id = sid, results = similarity_fallback merged,
          search_time = t1 - t0, total_before_rerank = Some (length merged),
          total_after_rerank = Some (length (similarity_fallback merged)), error = None\<rparr>"
    by simp
  have len: "length (similarity_fallback merged) = min 8 (length merged)"
    by (simp add: similarity_fallback_def)
  show ?thesis
    using ex len sorted_wrt_fallback[of merged] mset_fallback_subset[of merged]
      mset_fallback_all[of merged]
    by (simp add: similarity_fallback_def)
qed

theorem rerank_failure_falls_back_to_similarity_witness:
  "vo_embed rerank_down [''q''] = Inr ([1] # []) \<and>
   supabase_rpc rerank_down ''simple_hybrid_search'' (make_search_params [1] ''q'')
     = Inr (Some (take 3 five_rows)) \<and>
   supabase_rpc rerank_down ''title_filtered_search'' (make_title_params [1] ''q'')
     = Inr (Some (drop 2 five_rows)) \<and>
   five_rows = combine_tracks (data_or_empty (Some (take 3 five_rows)) @
                               data_or_empty (Some (drop 2 five_rows))) {} \<and>
   five_rows \<noteq> [] \<and>
   co_rerank rerank_down ''q'' (map content five_rows) (min 10 (length five_rows))
     = Inl (ServiceError ''rerank unavailable'') \<and>
   (\<exists>r. execute_dual_track_search rerank_down 0 1 ''q'' (Some ''Q1'') = Inr r \<and>
        map row_id (results r) = [2, 4, 3, 5, 1] \<and> error r = None)"
proof -
  have a: "vo_embed rerank_down [''q''] = Inr ([1] # [])"
    and b: "supabase_rpc rerank_down ''simple_hybrid_search'' (make_search_params [1] ''q'')
     = Inr (Some (take 3 five_rows))"
    and c: "supabase_rpc rerank_down ''title_filtered_search'' (make_title_params [1] ''q'')
     = Inr (Some (drop 2 five_rows))"
    and f: "co_rerank rerank_down ''q'' (map content five_rows) (min 10 (length five_rows))
     = Inl (ServiceError ''rerank unavailable'')"
    by (simp_all add: rerank_down_def)
  have d: "five_rows = combine_tracks (data_or_empty (Some (take 3 five_rows)) @
                               data_or_empty (Some (drop 2 five_rows))) {}"
    by (simp add: five_rows_def db_row_def data_or_empty_def)
  have e: "five_rows \<noteq> []" by (simp add: five_rows_def)
  from rerank_failure_falls_back_to_similarity[OF a b c d e f, of 0 1 "Some ''Q1''"]
  obtain r where r: "execute_dual_track_search rerank_down 0 1 ''q'' (Some ''Q1'') = Inr r"
    "results r = take 8 (sort_key (\<lambda>x. - similarity_or_0 x) five_rows)" "error r = None"
    by blast
  have "map row_id (take 8 (sort_key (\<lambda>x. - similarity_or_0 x) five_rows)) = [2, 4, 3, 5, 1]"
    by (simp add: five_rows_def db_row_def similarity_or_0_def)
  with r a b c d e f show ?thesis by simp
qed

section \<open>Properties of the fan-out\<close>

lemma nat_of_str_snoc: "nat_of_str (s @ [c]) = 10 * nat_of_str s + (of_char c - 48)"
  by (simp add: nat_of_str_def)

lemma of_char_digit_char: "d < 10 \<Longrightarrow> of_char (digit_char d) - 48 = (d::nat)"
  by (simp add: digit_char_def)

lemma nat_of_str_str_nat: "nat_of_str (str_nat n) = n"
proof (induction n rule: str_nat.induct)
  case (1 n)
  show ?case
  proof (cases "n < 10")
    case True
    then have "str_nat n = [digit_char n]" by (simp add: str_nat.simps)
    with True show ?thesis by (simp add: nat_of_str_def of_char_digit_char)
  next
    case False
    then have s: "str_nat n = str_nat (n div 10) @ [digit_char (n mod 10)]"
      by (simp add: str_nat.simps)
    have "n mod 10 < 10" by simp
    then have d: "of_char (digit_char (n mod 10)) - 48 = n mod 10" by (rule of_char_digit_char)
    from "1.IH"[OF False] have "nat_of_str (str_nat (n div 10)) = n div 10" .
    with s d show ?thesis by (simp add: nat_of_str_snoc)
  qed
qed

lemma search_id_of_inj: "search_id_of i = search_id_of j \<Longrightarrow> i = j"
proof -
  assume "search_id_of i = search_id_of j"
  then have "str_nat (i + 1) = str_nat (j + 1)" by (simp add: search_id_of_def)
  then have "nat_of_str (str_nat (i + 1)) = nat_of_str (str_nat (j + 1))" by simp
  then show "i = j" by (simp add: nat_of_str_str_nat)
qed

lemma search_id_to_order_Suc:
  "search_id_to_order (Suc n) = (search_id_to_order n)(search_id_of n \<mapsto> n)"
  by (simp add: search_id_to_order_def)

lemma search_id_to_order_lookup: "i < n \<Longrightarrow> search_id_to_order n (search_id_of i) = Some i"
proof (induction n)
  case 0
  then show ?case by simp
next
  case (Suc n)
  show ?case
  proof (cases "i = n")
    case True
    then show ?thesis by (simp add: search_id_to_order_Suc)
  next
    case False
    with Suc.prems have "i < n" by simp
    moreover from False have "search_id_of n \<noteq> search_id_of i" using search_id_of_inj by blast
    ultimately show ?thesis using Suc.IH by (simp add: search_id_to_order_Suc)
  qed
qed

lemma submitted_search_returns:
  "\<exists>r. submitted_search sv clock queries i = Inr r \<and> query r = queries ! i \<and>
       search_id r = Some (search_id_of i)"
  using execute_returns[of sv "fst (clock i)" "snd (clock i)" "queries ! i" "Some (search_id_of i)"]
  by (auto simp: submitted_search_def)

lemma collect_completed_all_return:
  "collect_completed (map (submitted_search sv clock queries) is) =
     Inr (map (\<lambda>i. projr (submitted_search sv clock queries i)) is)"
proof (induction "is")
  case Nil
  then show ?case by simp
next
  case (Cons i "is")
  from submitted_search_returns[of sv clock queries i]
  obtain r where "submitted_search sv clock queries i = Inr r" by blast
  with Cons.IH show ?case by simp
qed

lemma order_key_submitted:
  "i < n \<Longrightarrow> order_key (search_id_to_order n) (projr (submitted_search sv clock queries i)) = i"
proof -
  assume lt: "i < n"
  from submitted_search_returns[of sv clock queries i]
  obtain r where r: "submitted_search sv clock queries i = Inr r" "search_id r = Some (search_id_of i)"
    by blast
  with search_id_to_order_lookup[OF lt] show ?thesis by (simp add: order_key_def)
qed

lemma filter_eq_distinct: "distinct xs \<Longrightarrow> k \<in> set xs \<Longrightarrow> filter (\<lambda>x. k = x) xs = [k]"
proof (induction xs)
  case Nil
  then show ?case by simp
next
  case (Cons a xs)
  show ?case
  proof (cases "k = a")
    case True
    with Cons.prems have "\<forall>x\<in>set xs. k \<noteq> x" by auto
    then have "filter (\<lambda>x. k = x) xs = []" by (simp add: filter_empty_conv)
    with True show ?thesis by simp
  next
    case False
    with Cons show ?thesis by auto
  qed
qed

lemma sort_back_to_submission_order:
  assumes perm: "mset completion = mset [0..<n]"
    and key: "\<And>i. i < n \<Longrightarrow> k (res i) = i"
  shows "sort_key k (map res completion) = map res [0..<n]"
proof (rule properties_for_sort_key)
  show "mset (map res [0..<n]) = mset (map res completion)"
    using perm by (metis mset_map)
next
  have "map (\<lambda>i. k (res i)) [0..<n] = map (\<lambda>i. i) [0..<n]"
    by (rule map_cong) (simp_all add: key)
  then have "map k (map res [0..<n]) = [0..<n]"
    by (simp add: comp_def)
  then show "sorted (map k (map res [0..<n]))" by simp
next
  fix r
  assume "r \<in> set (map res [0..<n])"
  then obtain j where j: "j < n" "r = res j" by auto
  have setc: "set completion = {0..<n}"
    using perm by (metis mset_eq_setD set_upt)
  have dc: "distinct completion"
    using perm by (metis distinct_upt mset_eq_imp_distinct_iff)
  have f1: "filter (\<lambda>x. k r = k x) (map res [0..<n]) = map res (filter (\<lambda>x. j = x) [0..<n])"
    unfolding filter_map using j key by (intro arg_cong[where f="map res"] filter_cong) auto
  have f2: "filter (\<lambda>x. k r = k x) (map res completion) = map res (filter (\<lambda>x. j = x) completion)"
    unfolding filter_map using j key setc by (intro arg_cong[where f="map res"] filter_cong) auto
  have "filter (\<lambda>x. j = x) [0..<n] = [j]"
    using j by (intro filter_eq_distinct) auto
  moreover have "filter (\<lambda>x. j = x) completion = [j]"
    using j setc dc by (intro filter_eq_distinct) auto
  ultimately show "filter (\<lambda>x. k r = k x) (map res [0..<n]) =
                   filter (\<lambda>x. k r = k x) (map res completion)"
    using f1 f2 by simp
qed

lemma fan_out_returns_in_order:
  assumes "queries \<noteq> []" and "mset completion = mset [0..<length queries]"
  shows "fan_out sv clock queries completion =
           Inr (map (\<lambda>i. projr (submitted_search sv clock queries i)) [0..<length queries])"
proof -
  let ?n = "length queries"
  let ?res = "\<lambda>i. projr (submitted_search sv clock queries i)"
  have "sort_key (order_key (search_id_to_order ?n)) (map ?res completion) = map ?res [0..<?n]"
    using assms(2) order_key_submitted by (intro sort_back_to_submission_order) auto
  then show ?thesis
    using assms(1) by (simp add: fan_out_def collect_completed_all_return)
qed

text \<open>
  Claim C4. For a non-empty list of \<open>n\<close> sub-queries, in whatever order the searches complete
  and however many of them fail, the fan-out returns \<open>n\<close> results, and after the sort the
  \<open>i\<close>-th result is the one of the \<open>i\<close>-th submitted sub-query (id \<open>Q(i+1)\<close>, that query's text).
\<close>

theorem fan_out_length_and_order:
  assumes "queries \<noteq> []" and "mset completion = mset [0..<length queries]"
  shows "\<exists>rs. fan_out sv clock queries completion = Inr rs \<and>
           length rs = length queries \<and>
           map Inr rs = map (submitted_search sv clock queries) [0..<length queries] \<and>
           (\<forall>i<length queries. query (rs ! i) = queries ! i \<and>
                               search_id (rs ! i) = Some (search_id_of i))"
proof -
  let ?n = "length queries"
  let ?res = "\<lambda>i. projr (submitted_search sv clock queries i)"
  let ?rs = "map ?res [0..<?n]"
  have fo: "fan_out sv clock queries completion = Inr ?rs"
    using assms by (rule fan_out_returns_in_order)
  have each: "Inr (?res i) = submitted_search sv clock queries i" for i
    using submitted_search_returns[of sv clock queries i] by auto
  have m: "map Inr ?rs = map (submitted_search sv clock queries) [0..<?n]"
    using each by simp
  have q: "query (?rs ! i) = queries ! i \<and> search_id (?rs ! i) = Some (search_id_of i)"
    if "i < ?n" for i
    using that submitted_search_returns[of sv clock queries i] by auto
  from fo m q show ?thesis by (intro exI[of _ ?rs]) simp
qed

theorem fan_out_length_and_order_witness:
  "[''a'', ''b'', ''c''] \<noteq> [] \<and> mset [2, 0, 1] = mset [0..<length [''a'', ''b'', ''c'']] \<and>
   (\<exists>rs. fan_out embedding_down (\<lambda>i. (0, 1)) [''a'', ''b'', ''c''] [2, 0, 1] = Inr rs \<and>
      length rs = 3 \<and> map query rs = [''a'', ''b'', ''c''] \<and>
      map search_id rs = [Some ''Q1'', Some ''Q2'', Some ''Q3''] \<and>
      map results rs = [[], [], []])"
proof -
  have a: "[''a'', ''b'', ''c''] \<noteq> ([] :: string list)" by simp
  have u: "[0..<length [''a'', ''b'', ''c'']] = [0, 1, 2]" by (simp add: upt_rec)
  have b: "mset [2, 0, 1] = mset [0..<length [''a'', ''b'', ''c'']]" unfolding u by simp
  from fan_out_length_and_order[OF a b, of embedding_down "\<lambda>i. (0, 1)"]
  obtain rs where rs: "fan_out embedding_down (\<lambda>i. (0, 1)) [''a'', ''b'', ''c''] [2, 0, 1] = Inr rs"
    "length rs = length [''a'', ''b'', ''c'']"
    "map Inr rs = map (submitted_search embedding_down (\<lambda>i. (0, 1)) [''a'', ''b'', ''c'']) [0..<length [''a'', ''b'', ''c'']]"
    by blast
  have s: "submitted_search embedding_down (\<lambda>i. (0, 1)) [''a'', ''b'', ''c''] i =
      Inr (search_failed 0 1 ([''a'', ''b'', ''c''] ! i) (Some (search_id_of i)) (ServiceError ''no embedding''))" for i
    by (simp add: submitted_search_def execute_dual_track_search_def dual_track_body_def embedding_down_def)
  have ids: "search_id_of 0 = ''Q1''" "search_id_of 1 = ''Q2''" "search_id_of 2 = ''Q3''"
    by code_simp+
  let ?expected = "[search_failed 0 1 ''a'' (Some ''Q1'') (ServiceError ''no embedding''),
      search_failed 0 1 ''b'' (Some ''Q2'') (ServiceError ''no embedding''),
      search_failed 0 1 ''c'' (Some ''Q3'') (ServiceError ''no embedding'')]"
  from rs(3) have "map (Inr :: search_result \<Rightarrow> py_exception + search_result) rs = map Inr ?expected"
    unfolding u s using ids by simp
  then have "rs = ?expected"
    using inj_Inr by (rule map_injective)
  then have props: "length rs = 3" "map query rs = [''a'', ''b'', ''c'']"
      "map search_id rs = [Some ''Q1'', Some ''Q2'', Some ''Q3'']" "map results rs = [[], [], []]"
    by (simp_all add: search_failed_def)
  have "\<exists>rs. fan_out embedding_down (\<lambda>i. (0, 1)) [''a'', ''b'', ''c''] [2, 0, 1] = Inr rs \<and>
      length rs = 3 \<and> map query rs = [''a'', ''b'', ''c''] \<and>
      map search_id rs = [Some ''Q1'', Some ''Q2'', Some ''Q3''] \<and>
      map results rs = [[], [], []]"
    using rs(1) props by (intro exI[of _ rs] conjI)
  with a b show ?thesis by (intro conjI)
qed

section \<open>Properties of the cross-query deduplication\<close>

lemma map_of_group_store: "map_of (group_store k g groups) = (map_of groups)(k \<mapsto> g)"
  by (induction groups) (auto simp: fun_eq_iff)

lemma keys_group_store: "fst ` set (group_store k g groups) = insert k (fst ` set groups)"
  by (induction groups) auto

lemma distinct_group_store:
  "distinct (map fst groups) \<Longrightarrow> distinct (map fst (group_store k g groups))"
proof (induction groups)
  case Nil
  then show ?case by simp
next
  case (Cons kg rest)
  show ?case
  proof (cases "fst kg = k")
    case True
    with Cons.prems show ?thesis by simp
  next
    case False
    have "fst kg \<notin> fst ` set (group_store k g rest)"
      using Cons.prems False by (simp add: keys_group_store)
    with Cons False show ?thesis by simp
  qed
qed

lemma source_queries_update_group:
  "source_queries (update_group sr r g) = source_queries g @ [query sr]"
  by (simp add: update_group_def Let_def)

lemma chunk_data_update_group:
  "chunk_data (update_group sr r g) = (if chunk_data g = None then Some r else chunk_data g)"
  by (simp add: update_group_def Let_def)

lemma best_similarity_update_group:
  "best_scores_similarity (update_group sr r g) = max (best_scores_similarity g) (similarity_or_0 r)"
  by (simp add: update_group_def Let_def max_def)

lemma best_cohere_update_group:
  "best_scores_cohere_score (update_group sr r g) =
     max (best_scores_cohere_score g) (cohere_score_or_0 r)"
  by (simp add: update_group_def Let_def max_def)

lemma group_ok_other:
  "group_ok pairs k g \<Longrightarrow> row_id r \<noteq> k \<Longrightarrow> group_ok (pairs @ [(sr, r)]) k g"
  by (simp add: group_ok_def)

lemma group_ok_update_existing:
  assumes "group_ok pairs (row_id r) g"
  shows "group_ok (pairs @ [(sr, r)]) (row_id r) (update_group sr r g)"
proof -
  from assms obtain c where c: "chunk_data g = Some c" "row_id c = row_id r"
    by (auto simp: group_ok_def)
  have 1: "source_queries (update_group sr r g) =
        map (\<lambda>p. query (fst p)) (filter (\<lambda>p. row_id (snd p) = row_id r) (pairs @ [(sr, r)]))"
    using assms by (simp add: group_ok_def source_queries_update_group)
  have 2: "\<exists>c. chunk_data (update_group sr r g) = Some c \<and> row_id c = row_id r"
    using c by (simp add: chunk_data_update_group)
  have 3: "\<forall>p\<in>set (pairs @ [(sr, r)]). row_id (snd p) = row_id r \<longrightarrow>
        similarity_or_0 (snd p) \<le> best_scores_similarity (update_group sr r g) \<and>
        cohere_score_or_0 (snd p) \<le> best_scores_cohere_score (update_group sr r g)"
    using assms
    by (auto simp: group_ok_def best_similarity_update_group best_cohere_update_group
        le_max_iff_disj)
  from 1 2 3 show ?thesis unfolding group_ok_def by blast
qed

lemma group_ok_update_new:
  assumes "\<forall>p\<in>set pairs. row_id (snd p) \<noteq> row_id r"
  shows "group_ok (pairs @ [(sr, r)]) (row_id r) (update_group sr r new_group)"
proof -
  from assms have f: "filter (\<lambda>p. row_id (snd p) = row_id r) pairs = []"
    by (simp add: filter_empty_conv)
  have 1: "source_queries (update_group sr r new_group) =
        map (\<lambda>p. query (fst p)) (filter (\<lambda>p. row_id (snd p) = row_id r) (pairs @ [(sr, r)]))"
    using f by (simp add: source_queries_update_group new_group_def)
  have 2: "\<exists>c. chunk_data (update_group sr r new_group) = Some c \<and> row_id c = row_id r"
    by (simp add: chunk_data_update_group new_group_def)
  have 3: "\<forall>p\<in>set (pairs @ [(sr, r)]). row_id (snd p) = row_id r \<longrightarrow>
        similarity_or_0 (snd p) \<le> best_scores_similarity (update_group sr r new_group) \<and>
        cohere_score_or_0 (snd p) \<le> best_scores_cohere_score (update_group sr r new_group)"
    using assms
    by (auto simp: best_similarity_update_group best_cohere_update_group le_max_iff_disj)
  from 1 2 3 show ?thesis unfolding group_ok_def by blast
qed

lemma groups_ok_add_result:
  assumes "groups_ok pairs groups"
  shows "groups_ok (pairs @ [(sr, r)]) (add_result sr r groups)"
proof -
  let ?k = "row_id r"
  let ?g = "update_group sr r (group_lookup ?k groups)"
  from assms have d: "distinct (map fst groups)"
    and ok0: "\<forall>k g. map_of groups k = Some g \<longrightarrow> group_ok pairs k g"
    and cov0: "\<forall>p\<in>set pairs. map_of groups (row_id (snd p)) \<noteq> None"
    unfolding groups_ok_def by blast+
  from ok0 have ok: "\<And>k g. map_of groups k = Some g \<Longrightarrow> group_ok pairs k g" by blast
  from cov0 have cov: "\<And>p. p \<in> set pairs \<Longrightarrow> map_of groups (row_id (snd p)) \<noteq> None" by blast
  have new: "group_ok (pairs @ [(sr, r)]) ?k ?g"
  proof (cases "map_of groups ?k")
    case None
    with cov have "\<forall>p\<in>set pairs. row_id (snd p) \<noteq> ?k" by force
    from group_ok_update_new[OF this, of sr] None show ?thesis
      by (simp add: group_lookup_def)
  next
    case (Some g)
    from group_ok_update_existing[OF ok[OF Some], of sr] Some show ?thesis
      by (simp add: group_lookup_def)
  qed
  have m: "map_of (add_result sr r groups) = (map_of groups)(?k \<mapsto> ?g)"
    by (simp add: add_result_def map_of_group_store)
  have 1: "distinct (map fst (add_result sr r groups))"
    using d by (simp add: add_result_def distinct_group_store)
  have 2: "group_ok (pairs @ [(sr, r)]) k g" if "map_of (add_result sr r groups) k = Some g" for k g
  proof (cases "k = ?k")
    case True
    with that m new show ?thesis by simp
  next
    case False
    with that m have "map_of groups k = Some g" by simp
    from ok[OF this] have "group_ok pairs k g" .
    moreover from False have "row_id r \<noteq> k" by simp
    ultimately show ?thesis by (rule group_ok_other)
  qed
  have 3: "map_of (add_result sr r groups) (row_id (snd p)) \<noteq> None"
    if "p \<in> set (pairs @ [(sr, r)])" for p
  proof (cases "row_id (snd p) = ?k")
    case True
    with m show ?thesis by simp
  next
    case False
    with that have "p \<in> set pairs" by auto
    from cov[OF this] False m show ?thesis by simp
  qed
  from 1 2 3 show ?thesis unfolding groups_ok_def by blast
qed

lemma groups_ok_fold_results:
  "groups_ok pairs groups \<Longrightarrow>
   groups_ok (pairs @ map (Pair sr) rs) (fold (add_result sr) rs groups)"
proof (induction rs arbitrary: pairs groups)
  case Nil
  then show ?case by simp
next
  case (Cons r rs)
  from Cons.IH[OF groups_ok_add_result[OF Cons.prems, of sr r]] show ?case by simp
qed

lemma groups_ok_fold_searches:
  "groups_ok pairs groups \<Longrightarrow>
   groups_ok (pairs @ all_pairs srs)
     (fold (\<lambda>sr groups. fold (add_result sr) (results sr) groups) srs groups)"
proof (induction srs arbitrary: pairs groups)
  case Nil
  then show ?case by (simp add: all_pairs_def)
next
  case (Cons sr srs)
  from Cons.IH[OF groups_ok_fold_results[OF Cons.prems, of sr "results sr"]]
  show ?case by (simp add: all_pairs_def)
qed

lemma groups_ok_group_chunks: "groups_ok (all_pairs srs) (group_chunks srs)"
proof -
  have "groups_ok [] []" by (simp add: groups_ok_def)
  from groups_ok_fold_searches[OF this, of srs] show ?thesis by (simp add: group_chunks_def)
qed

lemma deduplicate_member:
  assumes "c \<in> set (deduplicate srs)"
  shows "\<exists>k g. (k, g) \<in> set (group_chunks srs) \<and> finish_group g = Some c"
proof -
  from assms obtain kg where "kg \<in> set (group_chunks srs)" "finish_group (snd kg) = Some c"
    by (auto simp: deduplicate_def List.map_filter_def)
  then have "(fst kg, snd kg) \<in> set (group_chunks srs) \<and> finish_group (snd kg) = Some c"
    by simp
  then show ?thesis by blast
qed

lemma finish_group_fields:
  assumes "finish_group g = Some c"
  shows "\<exists>c0. chunk_data g = Some c0 \<and> row_id c = row_id c0 \<and>
           retrieval_count c = Some (length (source_queries g)) \<and>
           unique_query_count c = Some (card (set (source_queries g))) \<and>
           best_similarity c = Some (best_scores_similarity g) \<and>
           best_cohere_score c = Some (best_scores_cohere_score g)"
  using assms by (auto simp: finish_group_def split: option.splits)

lemma deduplicate_ids: "map row_id (deduplicate srs) = map fst (group_chunks srs)"
proof -
  have ok: "\<And>k g. (k, g) \<in> set (group_chunks srs) \<Longrightarrow> \<exists>c. finish_group g = Some c \<and> row_id c = k"
  proof -
    fix k g assume kg: "(k, g) \<in> set (group_chunks srs)"
    from groups_ok_group_chunks[of srs] have d: "distinct (map fst (group_chunks srs))"
      and ok: "\<And>k g. map_of (group_chunks srs) k = Some g \<Longrightarrow> group_ok (all_pairs srs) k g"
      unfolding groups_ok_def by blast+
    from kg d have "map_of (group_chunks srs) k = Some g" by simp
    from ok[OF this] obtain c0 where "chunk_data g = Some c0" "row_id c0 = k"
      by (auto simp: group_ok_def)
    then show "\<exists>c. finish_group g = Some c \<and> row_id c = k"
      by (simp add: finish_group_def)
  qed
  have "map row_id (List.map_filter (\<lambda>kg. finish_group (snd kg)) gs) = map fst gs"
    if "\<And>k g. (k, g) \<in> set gs \<Longrightarrow> \<exists>c. finish_group g = Some c \<and> row_id c = k" for gs
    using that
  proof (induction gs)
    case Nil
    then show ?case by (simp add: List.map_filter_simps)
  next
    case (Cons kg gs)
    obtain k g where kg: "kg = (k, g)" by (cases kg)
    from Cons.prems[of k g] kg obtain c where "finish_group g = Some c" "row_id c = k" by auto
    moreover have "map row_id (List.map_filter (\<lambda>kg. finish_group (snd kg)) gs) = map fst gs"
      using Cons.prems by (intro Cons.IH) auto
    ultimately show ?case using kg by (simp add: List.map_filter_simps)
  qed
  from this[of "group_chunks srs"] ok show ?thesis by (simp add: deduplicate_def)
qed

lemma deduplicate_group:
  assumes "c \<in> set (deduplicate srs)"
  shows "\<exists>g. group_ok (all_pairs srs) (row_id c) g \<and>
           retrieval_count c = Some (length (source_queries g)) \<and>
           unique_query_count c = Some (card (set (source_queries g))) \<and>
           best_similarity c = Some (best_scores_similarity g) \<and>
           best_cohere_score c = Some (best_scores_cohere_score g)"
proof -
  from deduplicate_member[OF assms] obtain k g where
    kg: "(k, g) \<in> set (group_chunks srs)" and f: "finish_group g = Some c" by blast
  from groups_ok_group_chunks[of srs] have d: "distinct (map fst (group_chunks srs))"
    and ok: "\<And>k g. map_of (group_chunks srs) k = Some g \<Longrightarrow> group_ok (all_pairs srs) k g"
    unfolding groups_ok_def by blast+
  from kg d have "map_of (group_chunks srs) k = Some g" by simp
  from ok[OF this] have g: "group_ok (all_pairs srs) k g" .
  from finish_group_fields[OF f] obtain c0 where c0: "chunk_data g = Some c0" "row_id c = row_id c0"
    "retrieval_count c = Some (length (source_queries g))"
    "unique_query_count c = Some (card (set (source_queries g)))"
    "best_similarity c = Some (best_scores_similarity g)"
    "best_cohere_score c = Some (best_scores_cohere_score g)" by blast
  from g c0(1) have "row_id c0 = k" by (auto simp: group_ok_def)
  with g c0 show ?thesis by auto
qed

text \<open>
  Claim C5. For every chunk of the deduplicated output: its retrieval count is the number of
  appearances of its id over all searches' result lists, its unique query count is the
  number of distinct query texts among those appearances and at most the retrieval count,
  and its best similarity and best rerank score bound every similarity and rerank score
  observed for the id. The output holds each id once. On Scenario A the aggregate is
  retrieval count 2, unique query count 2, best similarity 0.70, best rerank score 0.80.
\<close>

theorem aggregate_counts_and_best_scores:
  "(\<forall>c\<in>set (deduplicate srs).
      retrieval_count c = Some (length (appearances srs (row_id c))) \<and>
      unique_query_count c =
        Some (card (set (map (\<lambda>p. query (fst p)) (appearances srs (row_id c))))) \<and>
      card (set (map (\<lambda>p. query (fst p)) (appearances srs (row_id c))))
        \<le> length (appearances srs (row_id c)) \<and>
      (\<exists>bs bc. best_similarity c = Some bs \<and> best_cohere_score c = Some bc \<and>
         (\<forall>p\<in>set (appearances srs (row_id c)).
            (\<forall>s. similarity (snd p) = Some s \<longrightarrow> s \<le> bs) \<and>
            (\<forall>s. cohere_score (snd p) = Some s \<longrightarrow> s \<le> bc)))) \<and>
   distinct (map row_id (deduplicate srs)) \<and>
   map (\<lambda>c. (row_id c, retrieval_count c, unique_query_count c, best_similarity c,
             best_cohere_score c)) (deduplicate scenario_A)
     = [(5, Some 2, Some 2, Some (7 / 10), Some (8 / 10))]"
proof (intro conjI ballI)
  fix c assume c: "c \<in> set (deduplicate srs)"
  let ?apps = "appearances srs (row_id c)"
  from deduplicate_group[OF c] obtain g where g: "group_ok (all_pairs srs) (row_id c) g"
    and rc: "retrieval_count c = Some (length (source_queries g))"
    and uq: "unique_query_count c = Some (card (set (source_queries g)))"
    and bs: "best_similarity c = Some (best_scores_similarity g)"
    and bc: "best_cohere_score c = Some (best_scores_cohere_score g)" by blast
  from g have sq: "source_queries g = map (\<lambda>p. query (fst p)) ?apps"
    by (simp add: group_ok_def appearances_def)
  from g have bound: "\<And>p. p \<in> set ?apps \<Longrightarrow>
      similarity_or_0 (snd p) \<le> best_scores_similarity g \<and>
      cohere_score_or_0 (snd p) \<le> best_scores_cohere_score g"
    by (auto simp: group_ok_def appearances_def)
  show "retrieval_count c = Some (length ?apps)" using rc sq by simp
  show "unique_query_count c = Some (card (set (map (\<lambda>p. query (fst p)) ?apps)))"
    using uq sq by simp
  show "card (set (map (\<lambda>p. query (fst p)) ?apps)) \<le> length ?apps"
    using card_length[of "map (\<lambda>p. query (fst p)) ?apps"] by simp
  have b1: "s \<le> best_scores_similarity g" if "p \<in> set ?apps" "similarity (snd p) = Some s" for p s
    using bound[OF that(1)] that(2) by (simp add: similarity_or_0_def)
  have b2: "s \<le> best_scores_cohere_score g" if "p \<in> set ?apps" "cohere_score (snd p) = Some s" for p s
    using bound[OF that(1)] that(2) by (simp add: cohere_score_or_0_def)
  have "\<forall>p\<in>set ?apps. (\<forall>s. similarity (snd p) = Some s \<longrightarrow> s \<le> best_scores_similarity g) \<and>
            (\<forall>s. cohere_score (snd p) = Some s \<longrightarrow> s \<le> best_scores_cohere_score g)"
    using b1 b2 by blast
  with bs bc show "\<exists>bs bc. best_similarity c = Some bs \<and> best_cohere_score c = Some bc \<and>
         (\<forall>p\<in>set ?apps.
            (\<forall>s. similarity (snd p) = Some s \<longrightarrow> s \<le> bs) \<and>
            (\<forall>s. cohere_score (snd p) = Some s \<longrightarrow> s \<le> bc))"
    by blast
next
  from groups_ok_group_chunks[of srs] show "distinct (map row_id (deduplicate srs))"
    by (simp add: deduplicate_ids groups_ok_def)
next
  show "map (\<lambda>c. (row_id c, retrieval_count c, unique_query_count c, best_similarity c,
             best_cohere_score c)) (deduplicate scenario_A)
     = [(5, Some 2, Some 2, Some (7 / 10), Some (8 / 10))]"
    by (simp add: deduplicate_def group_chunks_def scenario_A_def add_result_def update_group_def
        group_lookup_def new_group_def db_row_def similarity_or_0_def cohere_score_or_0_def
        finish_group_def List.map_filter_simps)
qed

theorem aggregate_counts_and_best_scores_witness:
  "hd (deduplicate scenario_repeat) \<in> set (deduplicate scenario_repeat) \<and>
   row_id (hd (deduplicate scenario_repeat)) = 5 \<and>
   length (appearances scenario_repeat 5) = 3 \<and>
   retrieval_count (hd (deduplicate scenario_repeat)) = Some 3 \<and>
   unique_query_count (hd (deduplicate scenario_repeat)) = Some 2 \<and>
   best_similarity (hd (deduplicate scenario_repeat)) = Some (9 / 10) \<and>
   best_cohere_score (hd (deduplicate scenario_repeat)) = Some (8 / 10)"
proof -
  let ?D = "deduplicate scenario_repeat"
  have ev: "map (\<lambda>c. (row_id c, best_similarity c, best_cohere_score c)) ?D
      = [(5, Some (9 / 10), Some (8 / 10)), (6, Some (1 / 2), Some 0)]"
    by (simp add: deduplicate_def group_chunks_def scenario_repeat_def add_result_def
        update_group_def group_lookup_def new_group_def db_row_def similarity_or_0_def
        cohere_score_or_0_def finish_group_def List.map_filter_simps)
  then have ne: "?D \<noteq> []" by auto
  then have mem: "hd ?D \<in> set ?D" by simp
  from ev ne have h: "row_id (hd ?D) = 5" "best_similarity (hd ?D) = Some (9 / 10)"
      "best_cohere_score (hd ?D) = Some (8 / 10)"
    by (cases ?D; simp)+
  have apps: "map (\<lambda>p. query (fst p)) (appearances scenario_repeat 5)
      = [''wandering'', ''sleep'', ''wandering'']"
    by (simp add: appearances_def all_pairs_def scenario_repeat_def db_row_def)
  then have len: "length (appearances scenario_repeat 5) = 3"
    using length_map[of "\<lambda>p. query (fst p)" "appearances scenario_repeat 5"] by simp
  from aggregate_counts_and_best_scores[of scenario_repeat] mem
  have "retrieval_count (hd ?D) = Some (length (appearances scenario_repeat (row_id (hd ?D))))"
    and "unique_query_count (hd ?D) =
        Some (card (set (map (\<lambda>p. query (fst p)) (appearances scenario_repeat (row_id (hd ?D))))))"
    by blast+
  moreover have "card (set [''wandering'', ''sleep'', ''wandering'']) = 2"
    by (simp add: card_insert_if)
  ultimately have "retrieval_count (hd ?D) = Some 3" "unique_query_count (hd ?D) = Some 2"
    using h(1) apps len by simp_all
  with mem h len show ?thesis by (intro conjI)
qed

section \<open>Properties of the final fusion rerank\<close>

lemma py_index_in_range: "0 \<le> i \<Longrightarrow> i < int n \<Longrightarrow> py_index n i = Some (nat i)"
  by (simp add: py_index_def)

lemma apply_final_ranking_distinct:
  assumes "\<forall>rr\<in>set rs. 0 \<le> rr_index rr \<and> rr_index rr < int (length cs)"
    and "distinct (map rr_index rs)"
  shows "\<exists>cs'. apply_final_ranking rs idx cs picked =
             (cs', Some (picked @ map (\<lambda>rr. nat (rr_index rr)) rs)) \<and>
           length cs' = length cs \<and>
           (\<forall>k<length rs. cs' ! nat (rr_index (rs ! k)) =
               (cs ! nat (rr_index (rs ! k)))
                 \<lparr>final_cohere_score := Some (relevance_score (rs ! k)),
                  final_rank := Some (idx + k + 1)\<rparr>) \<and>
           (\<forall>j<length cs. j \<notin> (\<lambda>rr. nat (rr_index rr)) ` set rs \<longrightarrow> cs' ! j = cs ! j)"
  using assms
proof (induction rs arbitrary: idx cs picked)
  case Nil
  then show ?case by simp
next
  case (Cons rr rest)
  let ?j0 = "nat (rr_index rr)"
  let ?u = "(cs ! ?j0)\<lparr>final_cohere_score := Some (relevance_score rr), final_rank := Some (idx + 1)\<rparr>"
  let ?cs1 = "cs[?j0 := ?u]"
  from Cons.prems(1) have r0: "0 \<le> rr_index rr" "rr_index rr < int (length cs)" by simp_all
  then have j0: "?j0 < length cs" by simp
  have pi: "py_index (length cs) (rr_index rr) = Some ?j0"
    using r0 by (rule py_index_in_range)
  have rng: "\<forall>rr'\<in>set rest. 0 \<le> rr_index rr' \<and> rr_index rr' < int (length ?cs1)"
    using Cons.prems(1) by simp
  have dst: "distinct (map rr_index rest)" using Cons.prems(2) by simp
  have fresh: "?j0 \<notin> (\<lambda>rr. nat (rr_index rr)) ` set rest"
  proof
    assume "?j0 \<in> (\<lambda>rr. nat (rr_index rr)) ` set rest"
    then obtain rr' where rr': "rr' \<in> set rest" "nat (rr_index rr') = ?j0" by auto
    from Cons.prems(1) rr'(1) have "0 \<le> rr_index rr'" by simp
    with rr'(2) r0(1) have "rr_index rr' = rr_index rr" by linarith
    with rr'(1) have "rr_index rr \<in> rr_index ` set rest" by (metis imageI)
    moreover from Cons.prems(2) have "rr_index rr \<notin> rr_index ` set rest" by simp
    ultimately show False by blast
  qed
  from Cons.IH[OF rng dst, of "idx + 1" "picked @ [?j0]"]
  obtain cs' where
    run: "apply_final_ranking rest (idx + 1) ?cs1 (picked @ [?j0]) =
            (cs', Some ((picked @ [?j0]) @ map (\<lambda>rr. nat (rr_index rr)) rest))"
    and len: "length cs' = length ?cs1"
    and set': "\<forall>k<length rest. cs' ! nat (rr_index (rest ! k)) =
               (?cs1 ! nat (rr_index (rest ! k)))
                 \<lparr>final_cohere_score := Some (relevance_score (rest ! k)),
                  final_rank := Some (idx + 1 + k + 1)\<rparr>"
    and keep: "\<forall>j<length ?cs1. j \<notin> (\<lambda>rr. nat (rr_index rr)) ` set rest \<longrightarrow> cs' ! j = ?cs1 ! j"
    by blast
  have 1: "apply_final_ranking (rr # rest) idx cs picked =
             (cs', Some (picked @ map (\<lambda>rr. nat (rr_index rr)) (rr # rest)))"
    using pi run by simp
  have 2: "length cs' = length cs" using len by simp
  have 3: "cs' ! nat (rr_index ((rr # rest) ! k)) =
               (cs ! nat (rr_index ((rr # rest) ! k)))
                 \<lparr>final_cohere_score := Some (relevance_score ((rr # rest) ! k)),
                  final_rank := Some (idx + k + 1)\<rparr>"
    if "k < length (rr # rest)" for k
  proof (cases k)
    case 0
    from keep j0 fresh have "cs' ! ?j0 = ?cs1 ! ?j0" by simp
    with j0 0 show ?thesis by simp
  next
    case (Suc k')
    with that have k': "k' < length rest" by simp
    then have mem: "rest ! k' \<in> set rest" by simp
    then have "nat (rr_index (rest ! k')) \<in> (\<lambda>rr. nat (rr_index rr)) ` set rest" by blast
    with fresh have ne: "nat (rr_index (rest ! k')) \<noteq> ?j0" by metis
    from set' k' have "cs' ! nat (rr_index (rest ! k')) =
               (?cs1 ! nat (rr_index (rest ! k')))
                 \<lparr>final_cohere_score := Some (relevance_score (rest ! k')),
                  final_rank := Some (idx + 1 + k' + 1)\<rparr>" by blast
    with ne Suc show ?thesis by simp
  qed
  have 4: "cs' ! j = cs ! j"
    if "j < length cs" "j \<notin> (\<lambda>rr. nat (rr_index rr)) ` set (rr # rest)" for j
  proof -
    from that(2) have a: "j \<noteq> ?j0" and b: "j \<notin> (\<lambda>rr. nat (rr_index rr)) ` set rest" by auto
    from keep that(1) b have "cs' ! j = ?cs1 ! j" by simp
    with a show ?thesis by simp
  qed
  from 1 2 3 4 show ?case by blast
qed

lemma final_fusion_reranked:
  assumes "length queries > 1" and "chunks \<noteq> []"
    and "co_rerank sv (join_space queries) (map content chunks) (min 10 (length chunks)) = Inr response"
    and "\<forall>rr\<in>set response. 0 \<le> rr_index rr \<and> rr_index rr < int (length chunks)"
    and "distinct (map rr_index response)"
  shows "final_fusion sv queries chunks = map (ranked_chunk chunks response) [0..<length response]"
proof -
  from apply_final_ranking_distinct[OF assms(4,5), of 0 "[]"]
  obtain cs' where
    run: "apply_final_ranking response 0 chunks [] = (cs', Some (map (\<lambda>rr. nat (rr_index rr)) response))"
    and set': "\<forall>k<length response. cs' ! nat (rr_index (response ! k)) =
               (chunks ! nat (rr_index (response ! k)))
                 \<lparr>final_cohere_score := Some (relevance_score (response ! k)),
                  final_rank := Some (0 + k + 1)\<rparr>"
    by auto
  have ff: "final_fusion sv queries chunks = map (\<lambda>j. cs' ! j) (map (\<lambda>rr. nat (rr_index rr)) response)"
    using assms(1-3) run by (simp add: final_fusion_def)
  have "map (\<lambda>j. cs' ! j) (map (\<lambda>rr. nat (rr_index rr)) response) =
        map (ranked_chunk chunks response) [0..<length response]"
  proof (rule nth_equalityI)
    show "length (map (\<lambda>j. cs' ! j) (map (\<lambda>rr. nat (rr_index rr)) response)) =
          length (map (ranked_chunk chunks response) [0..<length response])" by simp
  next
    fix k assume "k < length (map (\<lambda>j. cs' ! j) (map (\<lambda>rr. nat (rr_index rr)) response))"
    then have k: "k < length response" by simp
    with set' have "cs' ! nat (rr_index (response ! k)) = ranked_chunk chunks response k"
      by (simp add: ranked_chunk_def)
    with k show "map (\<lambda>j. cs' ! j) (map (\<lambda>rr. nat (rr_index rr)) response) ! k =
                 map (ranked_chunk chunks response) [0..<length response] ! k"
      by simp
  qed
  with ff show ?thesis by simp
qed

text \<open>
  Claim C8. With more than one sub-query and a non-empty deduplicated list, the fusion step
  calls the reranker with the space-joined sub-query texts, the contents of all
  deduplicated chunks and \<open>top_n = min 10 n\<close>; the \<open>k\<close>-th final result is the deduplicated
  chunk at the response's \<open>k\<close>-th index, with that response's score and rank \<open>k + 1\<close>. When
  the call raises, the result is the first 12 deduplicated chunks in their order; with a
  single sub-query it is the first 8.
\<close>

theorem fusion_rerank_and_fallbacks:
  "(length queries > 1 \<and> chunks \<noteq> [] \<and>
    co_rerank sv (join_space queries) (map content chunks) (min 10 (length chunks)) = Inr response \<and>
    (\<forall>rr\<in>set response. 0 \<le> rr_index rr \<and> rr_index rr < int (length chunks)) \<and>
    distinct (map rr_index response) \<longrightarrow>
      final_fusion sv queries chunks = map (ranked_chunk chunks response) [0..<length response] \<and>
      length (final_fusion sv queries chunks) = length response \<and>
      (\<forall>k<length response.
         row_id (final_fusion sv queries chunks ! k) = row_id (chunks ! nat (rr_index (response ! k))) \<and>
         final_rank (final_fusion sv queries chunks ! k) = Some (k + 1) \<and>
         final_cohere_score (final_fusion sv queries chunks ! k) = Some (relevance_score (response ! k)))) \<and>
   (length queries > 1 \<and> chunks \<noteq> [] \<and>
    co_rerank sv (join_space queries) (map content chunks) (min 10 (length chunks)) = Inl e \<longrightarrow>
      final_fusion sv queries chunks = take 12 chunks) \<and>
   (length queries = 1 \<longrightarrow> final_fusion sv queries chunks = take 8 chunks)"
proof (intro conjI impI)
  assume a: "length queries > 1 \<and> chunks \<noteq> [] \<and>
    co_rerank sv (join_space queries) (map content chunks) (min 10 (length chunks)) = Inr response \<and>
    (\<forall>rr\<in>set response. 0 \<le> rr_index rr \<and> rr_index rr < int (length chunks)) \<and>
    distinct (map rr_index response)"
  then have ff: "final_fusion sv queries chunks = map (ranked_chunk chunks response) [0..<length response]"
    by (intro final_fusion_reranked) blast+
  then show "final_fusion sv queries chunks = map (ranked_chunk chunks response) [0..<length response]" .
  from ff show "length (final_fusion sv queries chunks) = length response" by simp
  from ff show "\<forall>k<length response.
         row_id (final_fusion sv queries chunks ! k) = row_id (chunks ! nat (rr_index (response ! k))) \<and>
         final_rank (final_fusion sv queries chunks ! k) = Some (k + 1) \<and>
         final_cohere_score (final_fusion sv queries chunks ! k) = Some (relevance_score (response ! k))"
    by (simp add: ranked_chunk_def)
next
  assume "length queries > 1 \<and> chunks \<noteq> [] \<and>
    co_rerank sv (join_space queries) (map content chunks) (min 10 (length chunks)) = Inl e"
  then show "final_fusion sv queries chunks = take 12 chunks"
    by (simp add: final_fusion_def)
next
  assume "length queries = 1"
  then show "final_fusion sv queries chunks = take 8 chunks"
    by (simp add: final_fusion_def)
qed

theorem fusion_rerank_and_fallbacks_witness:
  "length [''x'', ''y''] > 1 \<and> three_chunks \<noteq> [] \<and>
   co_rerank fusion_up (join_space [''x'', ''y'']) (map content three_chunks) (min 10 (length three_chunks))
     = Inr [\<lparr>rr_index = 2, relevance_score = 9 / 10\<rparr>, \<lparr>rr_index = 0, relevance_score = 1 / 5\<rparr>] \<and>
   distinct (map rr_index [\<lparr>rr_index = 2, relevance_score = 9 / 10\<rparr>, \<lparr>rr_index = 0, relevance_score = 1 / 5\<rparr>]) \<and>
   map (\<lambda>c. (row_id c, final_rank c, final_cohere_score c)) (final_fusion fusion_up [''x'', ''y''] three_chunks)
     = [(3, Some 1, Some (9 / 10)), (1, Some 2, Some (1 / 5))] \<and>
   co_rerank fusion_up (join_space [''x'', ''z'']) (map content three_chunks) (min 10 (length three_chunks))
     = Inl (ServiceError ''rerank unavailable'') \<and>
   final_fusion fusion_up [''x'', ''z''] three_chunks = take 12 three_chunks \<and>
   length [''x''] = 1 \<and>
   final_fusion fusion_up [''x''] three_chunks = take 8 three_chunks"
proof -
  let ?resp = "[\<lparr>rr_index = 2, relevance_score = 9 / 10\<rparr>, \<lparr>rr_index = 0, relevance_score = 1 / 5\<rparr>]"
  have a: "length [''x'', ''y''] > 1" and b: "three_chunks \<noteq> []"
    by (simp_all add: three_chunks_def)
  have c: "co_rerank fusion_up (join_space [''x'', ''y'']) (map content three_chunks)
      (min 10 (length three_chunks)) = Inr ?resp"
    by (simp add: fusion_up_def)
  have d: "\<forall>rr\<in>set ?resp. 0 \<le> rr_index rr \<and> rr_index rr < int (length three_chunks)"
    by (simp add: three_chunks_def)
  have e: "distinct (map rr_index ?resp)" by simp
  from fusion_rerank_and_fallbacks[of "[''x'', ''y'']" three_chunks fusion_up ?resp] a b c d e
  have "final_fusion fusion_up [''x'', ''y''] three_chunks =
          map (ranked_chunk three_chunks ?resp) [0..<length ?resp]"
    by blast
  moreover have "[0..<length ?resp] = [0, 1]" by (simp add: upt_rec)
  ultimately have f: "map (\<lambda>c. (row_id c, final_rank c, final_cohere_score c))
        (final_fusion fusion_up [''x'', ''y''] three_chunks)
     = [(3, Some 1, Some (9 / 10)), (1, Some 2, Some (1 / 5))]"
    by (simp add: ranked_chunk_def three_chunks_def db_row_def)
  have a2: "length [''x'', ''z''] > 1" by simp
  have g: "co_rerank fusion_up (join_space [''x'', ''z'']) (map content three_chunks)
      (min 10 (length three_chunks)) = Inl (ServiceError ''rerank unavailable'')"
    by (simp add: fusion_up_def)
  from fusion_rerank_and_fallbacks[of "[''x'', ''z'']" three_chunks fusion_up _ "ServiceError ''rerank unavailable''"]
    a2 b g
  have h: "final_fusion fusion_up [''x'', ''z''] three_chunks = take 12 three_chunks" by blast
  have i: "length [''x''] = 1" by simp
  from fusion_rerank_and_fallbacks[of "[''x'']" three_chunks fusion_up] i
  have j: "final_fusion fusion_up [''x''] three_chunks = take 8 three_chunks" by blast
  from a b c e f g h i j show ?thesis by (intro conjI)
qed

section \<open>Properties of the tool's return value\<close>

lemma fold_add_result_no_results:
  "\<forall>sr\<in>set srs. results sr = [] \<Longrightarrow>
   fold (\<lambda>sr groups. fold (add_result sr) (results sr) groups) srs groups = groups"
  by (induction srs arbitrary: groups) simp_all

lemma deduplicate_no_results: "\<forall>sr\<in>set srs. results sr = [] \<Longrightarrow> deduplicate srs = []"
  by (simp add: deduplicate_def group_chunks_def fold_add_result_no_results List.map_filter_simps)

lemma total_before_no_results:
  "\<forall>sr\<in>set srs. results sr = [] \<Longrightarrow> sum_list (map (\<lambda>sr. length (results sr)) srs) = 0"
  by (induction srs) simp_all

lemma final_fusion_nothing: "final_fusion sv qs [] = []"
  by (simp add: final_fusion_def)

lemma execute_both_tracks_empty:
  assumes "vo_embed sv [qry] = Inr (emb # embs)"
    and "supabase_rpc sv ''simple_hybrid_search'' (make_search_params emb qry) = Inr d1"
    and "supabase_rpc sv ''title_filtered_search'' (make_title_params emb qry) = Inr d2"
    and "data_or_empty d1 = []" and "data_or_empty d2 = []"
  shows "\<exists>r. execute_dual_track_search sv t0 t1 qry sid = Inr r \<and> results r = [] \<and> error r = None"
  using execute_body_ok[OF assms(1-3), of t0 t1 sid] assms(4,5) by simp

text \<open>
  Claim C9. When the input parses and every sub-query's search returns no records, the tool
  returns (and does not raise) the not-found report: status \<open>not_found\<close>, the parsed queries,
  and a summary with no results, \<open>total_results = 0\<close> and \<open>duplicates_removed = 0\<close>. A search
  whose two tracks both return no rows is such a search.
\<close>

theorem no_records_gives_not_found:
  "(parse_queries (lib_json_loads env) (lib_py_str env) query_input = Inr qs \<and>
    mset (completion_order env (length qs)) = mset [0..<length qs] \<and>
    (\<forall>i<length qs. \<exists>r. submitted_search (clients env) (search_clock env) qs i = Inr r \<and>
                        results r = []) \<longrightarrow>
      (\<exists>s. parallel_comprehensive_search env query_input =
              Inr (Not_found ''not_found'' ''No relevant information found for any of the queries.'' qs s) \<and>
           total_queries s = length qs \<and> summary_results s = [] \<and> total_results s = 0 \<and>
           total_chunks_before (dedup_stats s) = 0 \<and> unique_chunks_after (dedup_stats s) = 0 \<and>
           duplicates_removed (dedup_stats s) = 0)) \<and>
   (vo_embed sv [qry] = Inr (emb # embs) \<and>
    supabase_rpc sv ''simple_hybrid_search'' (make_search_params emb qry) = Inr d1 \<and>
    supabase_rpc sv ''title_filtered_search'' (make_title_params emb qry) = Inr d2 \<and>
    data_or_empty d1 = [] \<and> data_or_empty d2 = [] \<longrightarrow>
      (\<exists>r. execute_dual_track_search sv t0 t1 qry sid = Inr r \<and> results r = [] \<and> error r = None))"
proof (intro conjI impI)
  assume a: "parse_queries (lib_json_loads env) (lib_py_str env) query_input = Inr qs \<and>
    mset (completion_order env (length qs)) = mset [0..<length qs] \<and>
    (\<forall>i<length qs. \<exists>r. submitted_search (clients env) (search_clock env) qs i = Inr r \<and>
                        results r = [])"
  let ?res = "\<lambda>i. projr (submitted_search (clients env) (search_clock env) qs i)"
  let ?rs = "map ?res [0..<length qs]"
  from a have p: "parse_queries (lib_json_loads env) (lib_py_str env) query_input = Inr qs" by blast
  then have ne: "qs \<noteq> []" by (rule parse_queries_nonempty)
  from a have perm: "mset (completion_order env (length qs)) = mset [0..<length qs]" by blast
  have fo: "fan_out (clients env) (search_clock env) qs (completion_order env (length qs)) = Inr ?rs"
    using ne perm by (rule fan_out_returns_in_order)
  have "results (?res i) = []" if "i < length qs" for i
  proof -
    from a that obtain r where "submitted_search (clients env) (search_clock env) qs i = Inr r"
      "results r = []" by blast
    then show ?thesis by simp
  qed
  then have none: "\<forall>sr\<in>set ?rs. results sr = []" by auto
  have d: "deduplicate ?rs = []" using none by (rule deduplicate_no_results)
  have t: "sum_list (map (\<lambda>sr. length (results sr)) ?rs) = 0"
    using none by (rule total_before_no_results)
  let ?s = "build_summary qs ?rs [] [] []
              (lib_round2 env (snd (overall_clock env) - fst (overall_clock env)))"
  have run: "parallel_comprehensive_search env query_input =
      Inr (Not_found ''not_found'' ''No relevant information found for any of the queries.'' qs ?s)"
    by (simp add: parallel_comprehensive_search_def p fo d final_fusion_nothing Let_def)
  have fields: "total_queries ?s = length qs \<and> summary_results ?s = [] \<and> total_results ?s = 0 \<and>
           total_chunks_before (dedup_stats ?s) = 0 \<and> unique_chunks_after (dedup_stats ?s) = 0 \<and>
           duplicates_removed (dedup_stats ?s) = 0"
    unfolding build_summary_def using t by simp
  from run fields show "\<exists>s. parallel_comprehensive_search env query_input =
              Inr (Not_found ''not_found'' ''No relevant information found for any of the queries.'' qs s) \<and>
           total_queries s = length qs \<and> summary_results s = [] \<and> total_results s = 0 \<and>
           total_chunks_before (dedup_stats s) = 0 \<and> unique_chunks_after (dedup_stats s) = 0 \<and>
           duplicates_removed (dedup_stats s) = 0"
    by (intro exI[of _ ?s]) simp
next
  assume "vo_embed sv [qry] = Inr (emb # embs) \<and>
    supabase_rpc sv ''simple_hybrid_search'' (make_search_params emb qry) = Inr d1 \<and>
    supabase_rpc sv ''title_filtered_search'' (make_title_params emb qry) = Inr d2 \<and>
    data_or_empty d1 = [] \<and> data_or_empty d2 = []"
  then show "\<exists>r. execute_dual_track_search sv t0 t1 qry sid = Inr r \<and> results r = [] \<and> error r = None"
    using execute_both_tracks_empty by blast
qed

theorem no_records_gives_not_found_witness:
  "parse_queries (lib_json_loads (quiet_env empty_store)) (lib_py_str (quiet_env empty_store)) ''night wandering''
     = Inr [''night wandering''] \<and>
   mset (completion_order (quiet_env empty_store) (length [''night wandering'']))
     = mset [0..<length [''night wandering'']] \<and>
   vo_embed empty_store [''night wandering''] = Inr ([1] # []) \<and>
   supabase_rpc empty_store ''simple_hybrid_search'' (make_search_params [1] ''night wandering'')
     = Inr (Some []) \<and>
   supabase_rpc empty_store ''title_filtered_search'' (make_title_params [1] ''night wandering'')
     = Inr None \<and>
   data_or_empty (Some []) = [] \<and> data_or_empty None = [] \<and>
   (\<exists>r. submitted_search (clients (quiet_env empty_store)) (search_clock (quiet_env empty_store))
          [''night wandering''] 0 = Inr r \<and> results r = []) \<and>
   (\<exists>s. parallel_comprehensive_search (quiet_env empty_store) ''night wandering'' =
           Inr (Not_found ''not_found'' ''No relevant information found for any of the queries.''
                  [''night wandering''] s) \<and>
        total_results s = 0 \<and> duplicates_removed (dedup_stats s) = 0)"
proof -
  let ?env = "quiet_env empty_store"
  let ?q = "''night wandering''"
  note inst = no_records_gives_not_found[of ?env ?q "[?q]" empty_store ?q "[1]" "[]" "Some []" None
      0 1 "Some (search_id_of 0)"]
  have p: "parse_queries (lib_json_loads ?env) (lib_py_str ?env) ?q = Inr [?q]"
    by (simp add: quiet_env_def parse_queries_def extract_queries_def py_strip_def py_isspace_def)
  have m: "mset (completion_order ?env (length [?q])) = mset [0..<length [?q]]"
    by (simp add: quiet_env_def)
  have e: "vo_embed empty_store [?q] = Inr ([1] # [])"
    and s1: "supabase_rpc empty_store ''simple_hybrid_search'' (make_search_params [1] ?q) = Inr (Some [])"
    and s2: "supabase_rpc empty_store ''title_filtered_search'' (make_title_params [1] ?q) = Inr None"
    by (simp_all add: empty_store_def)
  have d: "data_or_empty (Some []) = []" "data_or_empty None = []"
    by (simp_all add: data_or_empty_def)
  from inst e s1 s2 d
  obtain r where r: "execute_dual_track_search empty_store 0 1 ?q (Some (search_id_of 0)) = Inr r"
    "results r = []" by blast
  have sub: "submitted_search (clients ?env) (search_clock ?env) [?q] 0 =
      execute_dual_track_search empty_store 0 1 ?q (Some (search_id_of 0))"
    by (simp add: submitted_search_def quiet_env_def)
  with r have ex: "\<exists>r. submitted_search (clients ?env) (search_clock ?env) [?q] 0 = Inr r \<and> results r = []"
    by simp
  then have all: "\<forall>i<length [?q]. \<exists>r. submitted_search (clients ?env) (search_clock ?env) [?q] i = Inr r \<and>
      results r = []" by simp
  from inst p m all
  obtain s where s: "parallel_comprehensive_search ?env ?q =
      Inr (Not_found ''not_found'' ''No relevant information found for any of the queries.'' [?q] s)"
    "total_results s = 0" "duplicates_removed (dedup_stats s) = 0" by blast
  then have fin: "\<exists>s. parallel_comprehensive_search ?env ?q =
           Inr (Not_found ''not_found'' ''No relevant information found for any of the queries.''
                  [?q] s) \<and>
        total_results s = 0 \<and> duplicates_removed (dedup_stats s) = 0"
    by (intro exI[of _ s]) simp
  from p m e s1 s2 d ex fin show ?thesis by (intro conjI)
qed

section \<open>Properties of the event stream\<close>

lemma answers_append: "answers (xs @ ys) = answers xs @ answers ys"
  by (induction xs rule: answers.induct) simp_all

lemma statuses_append: "statuses (xs @ ys) = statuses xs @ statuses ys"
  by (induction xs rule: statuses.induct) simp_all

lemma answer_part_append: "answer_part (xs @ ys) = answer_part xs @ answer_part ys"
  by (induction xs rule: answer_part.induct) simp_all

lemma Status_in_statuses: "Status x \<in> set es \<longleftrightarrow> x \<in> set (statuses es)"
  by (induction es rule: statuses.induct) auto

lemma token_puts_program:
  "token_puts (worker_program toks r) = map Some toks @ (if r then [None] else [])"
proof -
  have "token_puts (map (\<lambda>t. Put_token (Some t)) toks @ rest) = map Some toks @ token_puts rest"
    for rest by (induction toks) simp_all
  then show ?thesis by (simp add: worker_program_def)
qed

lemma status_puts_program:
  "status_puts (worker_program toks r) =
     [''thinking'', ''searching''] @ (if r then [''finished''] else [])"
proof -
  have "status_puts (map (\<lambda>t. Put_token (Some t)) toks @ rest) = status_puts rest"
    for rest by (induction toks) simp_all
  then show ?thesis by (simp add: worker_program_def)
qed

subsection \<open>Each invariant holds initially and is kept by both threads\<close>

lemma tokens_conserved_start:
  "tokens_conserved (map Some toks @ (if r then [None] else [])) (stream_start toks r)"
  by (simp add: tokens_conserved_def stream_start_def token_puts_program)

lemma tokens_conserved_worker:
  "tokens_conserved all s \<Longrightarrow> tokens_conserved all (worker_step s)"
  by (auto simp: tokens_conserved_def worker_step_def split: list.splits worker_action.splits)

lemma tokens_conserved_consumer:
  "tokens_conserved all s \<Longrightarrow> tokens_conserved all (consumer_step s)"
  by (cases "pc s")
     (auto simp: tokens_conserved_def consumer_step_def answers_append
           split: list.splits option.splits)

lemma statuses_conserved_start:
  "statuses_conserved (mset ([''thinking'', ''searching''] @ (if r then [''finished''] else [])))
     (stream_start toks r)"
  by (simp add: statuses_conserved_def stream_start_def status_puts_program)

lemma statuses_conserved_worker:
  "statuses_conserved prog s \<Longrightarrow> statuses_conserved prog (worker_step s)"
  by (auto simp: statuses_conserved_def worker_step_def split: list.splits worker_action.splits)

lemma statuses_conserved_consumer:
  "statuses_conserved prog s \<Longrightarrow> statuses_conserved prog (consumer_step s)"
  by (cases "pc s")
     (auto simp: statuses_conserved_def consumer_step_def statuses_append
           split: list.splits option.splits)

lemma trace_shape_start: "trace_shape (stream_start toks r)"
  by (simp add: trace_shape_def stream_start_def status_puts_program)

lemma trace_shape_worker: "trace_shape s \<Longrightarrow> trace_shape (worker_step s)"
  by (auto simp: trace_shape_def worker_step_def split: list.splits worker_action.splits)

lemma trace_shape_consumer: "trace_shape s \<Longrightarrow> trace_shape (consumer_step s)"
  by (cases "pc s")
     (auto simp: trace_shape_def consumer_step_def answers_append answer_part_append
           split: list.splits option.splits)

lemma queues_bounded_start: "queues_bounded (length toks) (stream_start toks r)"
  by (simp add: queues_bounded_def stream_start_def token_puts_program status_puts_program)

lemma queues_bounded_worker: "queues_bounded n s \<Longrightarrow> queues_bounded n (worker_step s)"
  by (auto simp: queues_bounded_def worker_step_def split: list.splits worker_action.splits)

lemma queues_bounded_consumer: "queues_bounded n s \<Longrightarrow> queues_bounded n (consumer_step s)"
  by (cases "pc s")
     (auto simp: queues_bounded_def consumer_step_def split: list.splits option.splits)

lemma run_invariant:
  assumes "\<And>s. P s \<Longrightarrow> P (worker_step s)" and "\<And>s. P s \<Longrightarrow> P (consumer_step s)"
  shows "P s \<Longrightarrow> P (run sch s)"
proof (induction sch arbitrary: s)
  case Nil
  then show ?case by simp
next
  case (Cons a sch)
  then show ?case using assms by (cases a) simp_all
qed

lemma run_append: "run (sch1 @ sch2) s = run sch2 (run sch1 s)"
proof (induction sch1 arbitrary: s)
  case Nil
  then show ?case by simp
next
  case (Cons a sch1)
  then show ?case by (cases a) simp_all
qed

subsection \<open>What the invariants say about the trace\<close>

lemma tokens_all_taken:
  "map Some as @ None # r = map Some toks @ [None] \<Longrightarrow> as = toks \<and> r = []"
proof (induction as arbitrary: toks)
  case Nil
  show ?case
  proof (cases toks)
    case Nil
    with Nil.prems show ?thesis by simp
  next
    case (Cons t toks')
    with Nil.prems show ?thesis by simp
  qed
next
  case (Cons a as)
  show ?case
  proof (cases toks)
    case Nil
    with Cons.prems show ?thesis by simp
  next
    case (Cons t toks')
    with Cons.prems have "a = t" and "map Some as @ None # r = map Some toks' @ [None]"
      by simp_all
    with Cons.IH[of toks'] Cons show ?thesis by simp
  qed
qed

lemma tokens_taken_prefix:
  "map Some as @ r = map Some toks @ [None] \<Longrightarrow> prefix as toks"
proof (induction as arbitrary: toks)
  case Nil
  then show ?case by simp
next
  case (Cons a as)
  show ?case
  proof (cases toks)
    case Nil
    with Cons.prems show ?thesis by simp
  next
    case (Cons t toks')
    with Cons.prems have "a = t" and "map Some as @ r = map Some toks' @ [None]" by simp_all
    with Cons.IH[of toks'] Cons show ?thesis by simp
  qed
qed

lemma worker_todo_consumer: "worker_todo (consumer_step s) = worker_todo s"
  by (cases "pc s") (simp_all add: consumer_step_def split: list.splits option.splits)

lemma worker_todo_worker: "length (worker_todo (worker_step s)) = length (worker_todo s) - 1"
  by (simp add: worker_step_def split: list.splits worker_action.splits)

lemma worker_todo_run:
  "length (worker_todo (run sch s)) = length (worker_todo s) - count_list sch Worker"
proof (induction sch arbitrary: s)
  case Nil
  then show ?case by simp
next
  case (Cons a sch)
  then show ?case by (cases a) (simp_all add: worker_todo_worker worker_todo_consumer)
qed

lemma worker_step_done: "worker_todo s = [] \<Longrightarrow> worker_step s = s"
  by (simp add: worker_step_def)

lemma worker_step_trace: "pc (worker_step s) = pc s \<and> emitted (worker_step s) = emitted s"
  by (simp add: worker_step_def split: list.splits worker_action.splits)

lemma consumer_step_closed: "pc s = Closed \<Longrightarrow> consumer_step s = s"
  by (simp add: consumer_step_def)

lemma closed_stays:
  "pc s = Closed \<Longrightarrow> pc (run sch s) = Closed \<and> emitted (run sch s) = emitted s"
proof (induction sch arbitrary: s)
  case Nil
  then show ?case by simp
next
  case (Cons a sch)
  show ?case
  proof (cases a)
    case Worker
    from Cons.prems worker_step_trace[of s] have "pc (worker_step s) = Closed" by simp
    from Cons.IH[OF this] worker_step_trace[of s] Worker show ?thesis by simp
  next
    case Consumer
    with Cons show ?thesis by (simp add: consumer_step_closed)
  qed
qed

lemma steps_left_0: "steps_left s = 0 \<Longrightarrow> pc s = Closed"
  by (cases "pc s") (simp_all add: steps_left_def)

lemma consumer_progress:
  assumes "worker_todo s = []" and "tokens_conserved (map Some toks @ [None]) s"
    and "pc s \<noteq> Closed"
  shows "steps_left (consumer_step s) < steps_left s"
proof (cases "pc s")
  case At_start
  then show ?thesis by (simp add: consumer_step_def steps_left_def)
next
  case Polling
  with assms(1,2) have eq: "map Some (answers (emitted s)) @ token_queue s = map Some toks @ [None]"
    by (simp add: tokens_conserved_def)
  have "token_queue s \<noteq> []"
  proof
    assume "token_queue s = []"
    with eq have "None \<in> set (map Some (answers (emitted s)))" by simp
    then show False by auto
  qed
  then obtain x rest where "token_queue s = x # rest" by (cases "token_queue s") auto
  with Polling show ?thesis
    by (cases x) (simp_all add: consumer_step_def steps_left_def)
next
  case Draining
  then show ?thesis
    by (cases "status_queue s") (simp_all add: consumer_step_def steps_left_def)
next
  case Finishing
  then show ?thesis by (simp add: consumer_step_def steps_left_def)
next
  case Closed
  with assms(3) show ?thesis by simp
qed

lemma run_closes:
  "worker_todo s = [] \<Longrightarrow> tokens_conserved (map Some toks @ [None]) s \<Longrightarrow>
   steps_left s \<le> count_list sch Consumer \<Longrightarrow> pc (run sch s) = Closed"
proof (induction sch arbitrary: s)
  case Nil
  then show ?case by (simp add: steps_left_0)
next
  case (Cons a sch)
  show ?case
  proof (cases a)
    case Worker
    with Cons.prems have "steps_left s \<le> count_list sch Consumer" by simp
    from Cons.IH[OF Cons.prems(1,2) this] Worker Cons.prems(1) show ?thesis
      by (simp add: worker_step_done)
  next
    case Consumer
    show ?thesis
    proof (cases "pc s = Closed")
      case True
      from closed_stays[OF True, of "a # sch"] show ?thesis by simp
    next
      case False
      from consumer_progress[OF Cons.prems(1,2) False] Cons.prems(3) Consumer
      have le: "steps_left (consumer_step s) \<le> count_list sch Consumer" by simp
      have td: "worker_todo (consumer_step s) = []"
        using Cons.prems(1) by (simp add: worker_todo_consumer)
      have tc: "tokens_conserved (map Some toks @ [None]) (consumer_step s)"
        using Cons.prems(2) by (rule tokens_conserved_consumer)
      from Cons.IH[OF td tc le] Consumer show ?thesis by simp
    qed
  qed
qed

lemma steps_left_bound:
  "queues_bounded n s \<Longrightarrow> worker_todo s = [] \<Longrightarrow> steps_left s \<le> 2 * n + 8"
  by (cases "pc s") (auto simp: queues_bounded_def steps_left_def)

lemma stream_closes:
  assumes "length toks + 4 \<le> count_list sch1 Worker"
    and "2 * length toks + 8 \<le> count_list sch2 Consumer"
  shows "pc (run (sch1 @ sch2) (stream_start toks True)) = Closed"
proof -
  let ?s = "run sch1 (stream_start toks True)"
  have "length (worker_todo (stream_start toks True)) = length toks + 4"
    by (simp add: stream_start_def worker_program_def)
  with assms(1) worker_todo_run[of sch1 "stream_start toks True"]
  have wd: "worker_todo ?s = []" by simp
  have tc: "tokens_conserved (map Some toks @ [None]) ?s"
    using tokens_conserved_start[of toks True]
    by (intro run_invariant[where P="tokens_conserved (map Some toks @ [None])"])
       (simp_all add: tokens_conserved_worker tokens_conserved_consumer)
  have qb: "queues_bounded (length toks) ?s"
    using queues_bounded_start[of toks True]
    by (intro run_invariant[where P="queues_bounded (length toks)"])
       (simp_all add: queues_bounded_worker queues_bounded_consumer)
  from steps_left_bound[OF qb wd] assms(2)
  have "steps_left ?s \<le> count_list sch2 Consumer" by simp
  from run_closes[OF wd tc this] show ?thesis by (simp add: run_append)
qed

lemma invariants_hold:
  "tokens_conserved (map Some toks @ (if r then [None] else [])) (run sch (stream_start toks r))"
  "statuses_conserved (mset ([''thinking'', ''searching''] @ (if r then [''finished''] else [])))
     (run sch (stream_start toks r))"
  "trace_shape (run sch (stream_start toks r))"
proof -
  show "tokens_conserved (map Some toks @ (if r then [None] else [])) (run sch (stream_start toks r))"
    using tokens_conserved_start[of toks r]
    by (intro run_invariant[where P="tokens_conserved (map Some toks @ (if r then [None] else []))"])
       (simp_all add: tokens_conserved_worker tokens_conserved_consumer)
  show "statuses_conserved (mset ([''thinking'', ''searching''] @ (if r then [''finished''] else [])))
     (run sch (stream_start toks r))"
    using statuses_conserved_start[of r toks]
    by (intro run_invariant[where
          P="statuses_conserved (mset ([''thinking'', ''searching''] @ (if r then [''finished''] else [])))"])
       (simp_all add: statuses_conserved_worker statuses_conserved_consumer)
  show "trace_shape (run sch (stream_start toks r))"
    using trace_shape_start[of toks r]
    by (intro run_invariant[where P=trace_shape])
       (simp_all add: trace_shape_worker trace_shape_consumer)
qed

lemma statuses_bound:
  assumes "statuses_conserved {#''thinking'', ''searching'', ''finished''#} s"
  shows "mset (statuses (emitted s)) \<subseteq>#
           {#''thinking'', ''thinking'', ''searching'', ''answering'', ''finished'', ''finished''#}"
proof -
  let ?R = "{#''thinking'', ''searching'', ''finished''#} +
       (if pc s = At_start then {#} else {#''thinking''#}) +
       (if answer_started s then {#''answering''#} else {#}) +
       (if pc s = Closed then {#''finished''#} else {#})"
  have "mset (statuses (emitted s)) \<subseteq>#
          mset (statuses (emitted s)) + (mset (status_queue s) + mset (status_puts (worker_todo s)))"
    by (rule mset_subset_eq_add_left)
  also have "\<dots> = ?R" using assms by (simp add: statuses_conserved_def add.assoc)
  also have "?R \<subseteq># {#''thinking'', ''searching'', ''finished''#} + {#''thinking''#} +
                 {#''answering''#} + {#''finished''#}"
    by (intro subset_mset.add_mono) simp_all
  also have "\<dots> = {#''thinking'', ''thinking'', ''searching'', ''answering'', ''finished'', ''finished''#}"
    by simp
  finally show ?thesis .
qed

text \<open>
  When the agent call raises, the worker ends without putting the sentinel: under every
  interleaving the generator never leaves its loop and no \<open>finished\<close> status is emitted.
\<close>

lemma agent_raises_never_finishes:
  "pc (run sch (stream_start toks False)) \<noteq> Finishing \<and>
   pc (run sch (stream_start toks False)) \<noteq> Closed \<and>
   Status ''finished'' \<notin> set (emitted (run sch (stream_start toks False)))"
proof -
  let ?s = "run sch (stream_start toks False)"
  from invariants_hold(1)[of toks False sch]
  have tc: "map Some (answers (emitted ?s)) @
     (if pc ?s = Finishing \<or> pc ?s = Closed then [None] else []) @
     token_queue ?s @ token_puts (worker_todo ?s) = map Some toks"
    by (simp add: tokens_conserved_def)
  have nf: "\<not> (pc ?s = Finishing \<or> pc ?s = Closed)"
  proof
    assume "pc ?s = Finishing \<or> pc ?s = Closed"
    with tc have eq: "map Some (answers (emitted ?s)) @ None #
        (token_queue ?s @ token_puts (worker_todo ?s)) = map Some toks" by simp
    have "None \<in> set (map Some (answers (emitted ?s)) @ None #
        (token_queue ?s @ token_puts (worker_todo ?s)))" by simp
    then have "None \<in> set (map Some toks)" unfolding eq .
    then show False by auto
  qed
  then have nc: "pc ?s \<noteq> Closed" by blast
  from invariants_hold(2)[of False sch toks]
  have sc: "statuses_conserved {#''thinking'', ''searching''#} ?s" by simp
  have fin_not: "''finished'' \<notin># {#''thinking'', ''searching''#} +
       (if pc ?s = At_start then {#} else {#''thinking''#}) +
       (if answer_started ?s then {#''answering''#} else {#})"
    by simp
  from sc nc
  have eq2: "mset (statuses (emitted ?s)) + mset (status_queue ?s) + mset (status_puts (worker_todo ?s)) =
       {#''thinking'', ''searching''#} + (if pc ?s = At_start then {#} else {#''thinking''#}) +
       (if answer_started ?s then {#''answering''#} else {#})"
    unfolding statuses_conserved_def by simp
  have "''finished'' \<notin># mset (statuses (emitted ?s)) + mset (status_queue ?s) +
       mset (status_puts (worker_todo ?s))"
    unfolding eq2 by (rule fin_not)
  then have "''finished'' \<notin> set (statuses (emitted ?s))" by simp
  then have "Status ''finished'' \<notin> set (emitted ?s)" by (simp add: Status_in_statuses)
  with nf show ?thesis by blast
qed

text \<open>
  Claim C1, as the code has it. For a request whose agent call returns, under every
  interleaving of the worker thread and the generator: the first event is the status
  \<open>thinking\<close>; the answer chunks are the forwarded tokens in order, with a single \<open>answering\<close>
  status before the first of them; the statuses emitted are among \<open>thinking\<close> (at most
  twice), \<open>searching\<close>, \<open>answering\<close> and \<open>finished\<close> (at most twice), the generator relaying
  the worker's own status puts besides the ones it emits itself; once the generator has
  taken the sentinel and closed, the last event is \<open>finished\<close>, every forwarded token has been
  emitted and nothing is emitted any more; and the stream does close once the worker has
  made its puts and the generator has taken enough steps.
\<close>

theorem stream_trace_under_every_interleaving:
  "(let s = run sch (stream_start toks True) in
      (emitted s = [] \<or> hd (emitted s) = Status ''thinking'') \<and>
      prefix (answers (emitted s)) toks \<and>
      answer_part (emitted s) =
        (if answers (emitted s) = [] then []
         else Status ''answering'' # map Answer (answers (emitted s))) \<and>
      mset (statuses (emitted s)) \<subseteq>#
        {#''thinking'', ''thinking'', ''searching'', ''answering'', ''finished'', ''finished''#} \<and>
      (pc s = Closed \<longrightarrow>
         last (emitted s) = Status ''finished'' \<and> answers (emitted s) = toks \<and>
         emitted (run sch' s) = emitted s \<and> pc (run sch' s) = Closed)) \<and>
   (length toks + 4 \<le> count_list sch1 Worker \<and> 2 * length toks + 8 \<le> count_list sch2 Consumer \<longrightarrow>
      pc (run (sch1 @ sch2) (stream_start toks True)) = Closed)"
proof -
  let ?s = "run sch (stream_start toks True)"
  from invariants_hold(1)[of toks True sch]
  have tc: "map Some (answers (emitted ?s)) @
     (if pc ?s = Finishing \<or> pc ?s = Closed then [None] else []) @
     token_queue ?s @ token_puts (worker_todo ?s) = map Some toks @ [None]"
    by (simp add: tokens_conserved_def)
  from invariants_hold(2)[of True sch toks]
  have sc: "statuses_conserved {#''thinking'', ''searching'', ''finished''#} ?s" by simp
  from invariants_hold(3)[of sch toks True] have ts: "trace_shape ?s" .
  have 1: "emitted ?s = [] \<or> hd (emitted ?s) = Status ''thinking''"
    using ts unfolding trace_shape_def by (cases "pc ?s = At_start") auto
  have 2: "prefix (answers (emitted ?s)) toks"
    using tc by (rule tokens_taken_prefix)
  have 3: "answer_part (emitted ?s) =
        (if answers (emitted ?s) = [] then []
         else Status ''answering'' # map Answer (answers (emitted ?s)))"
    using ts unfolding trace_shape_def by auto
  have 4: "mset (statuses (emitted ?s)) \<subseteq>#
        {#''thinking'', ''thinking'', ''searching'', ''answering'', ''finished'', ''finished''#}"
    using sc by (rule statuses_bound)
  have 5: "last (emitted ?s) = Status ''finished'' \<and> answers (emitted ?s) = toks \<and>
         emitted (run sch' ?s) = emitted ?s \<and> pc (run sch' ?s) = Closed" if c: "pc ?s = Closed"
  proof -
    from ts c obtain pre where "emitted ?s = pre @ [Status ''finished'']"
      unfolding trace_shape_def by blast
    then have a: "last (emitted ?s) = Status ''finished''" by simp
    from tc c have "map Some (answers (emitted ?s)) @ None #
        (token_queue ?s @ token_puts (worker_todo ?s)) = map Some toks @ [None]" by simp
    then have b: "answers (emitted ?s) = toks" using tokens_all_taken by blast
    from a b closed_stays[OF c, of sch'] show ?thesis by simp
  qed
  have 6: "pc (run (sch1 @ sch2) (stream_start toks True)) = Closed"
    if "length toks + 4 \<le> count_list sch1 Worker \<and> 2 * length toks + 8 \<le> count_list sch2 Consumer"
    using that stream_closes by blast
  from 1 2 3 4 5 6 show ?thesis
    unfolding Let_def by blast
qed

text \<open>
  The claim as the spec words it fails on the usual run, where \<open>thinking\<close> is emitted twice,
  and on a run with a backlog, where a chunk follows a \<open>finished\<close> status and \<open>finished\<close> is
  emitted twice.
\<close>

theorem stream_repeats_statuses_counterexample:
  "emitted (run usual_schedule (stream_start [''Hello''] True)) =
     [Status ''thinking'', Status ''thinking'', Status ''searching'', Status ''answering'',
      Answer ''Hello'', Status ''finished''] \<and>
   emitted (run backlog_schedule (stream_start [''Hel'', ''lo''] True)) =
     [Status ''thinking'', Status ''answering'', Answer ''Hel'', Status ''thinking'',
      Status ''searching'', Status ''finished'', Answer ''lo'', Status ''finished'']"
  by (simp add: usual_schedule_def backlog_schedule_def stream_start_def worker_program_def
      worker_step_def consumer_step_def)

theorem stream_trace_under_every_interleaving_witness:
  "pc (run backlog_schedule (stream_start [''Hel'', ''lo''] True)) = Closed \<and>
   last (emitted (run backlog_schedule (stream_start [''Hel'', ''lo''] True))) = Status ''finished'' \<and>
   answers (emitted (run backlog_schedule (stream_start [''Hel'', ''lo''] True))) = [''Hel'', ''lo''] \<and>
   emitted (run [Consumer, Worker] (run backlog_schedule (stream_start [''Hel'', ''lo''] True)))
     = emitted (run backlog_schedule (stream_start [''Hel'', ''lo''] True)) \<and>
   length [''Hel'', ''lo''] + 4 \<le> count_list (replicate 6 Worker) Worker \<and>
   2 * length [''Hel'', ''lo''] + 8 \<le> count_list (replicate 12 Consumer) Consumer \<and>
   pc (run (replicate 6 Worker @ replicate 12 Consumer) (stream_start [''Hel'', ''lo''] True)) = Closed"
proof -
  let ?s = "run backlog_schedule (stream_start [''Hel'', ''lo''] True)"
  note inst = stream_trace_under_every_interleaving[of backlog_schedule "[''Hel'', ''lo'']"
      "[Consumer, Worker]" "replicate 6 Worker" "replicate 12 Consumer"]
  have c: "pc ?s = Closed"
    by (simp add: backlog_schedule_def stream_start_def worker_program_def worker_step_def
        consumer_step_def)
  have w: "length [''Hel'', ''lo''] + 4 \<le> count_list (replicate 6 Worker) Worker"
    by (simp add: numeral_eq_Suc)
  have k: "2 * length [''Hel'', ''lo''] + 8 \<le> count_list (replicate 12 Consumer) Consumer"
    by (simp add: numeral_eq_Suc)
  from inst c have a: "last (emitted ?s) = Status ''finished''" "answers (emitted ?s) = [''Hel'', ''lo'']"
      "emitted (run [Consumer, Worker] ?s) = emitted ?s"
    unfolding Let_def by blast+
  from inst w k have l: "pc (run (replicate 6 Worker @ replicate 12 Consumer)
      (stream_start [''Hel'', ''lo''] True)) = Closed"
    by blast
  from c a w k l show ?thesis by (intro conjI)
qed

end
